theory Spec2Isabelle
  imports Main
begin

section \<open>Values: JSON documents, Python errors, Python strings\<close>

text \<open>
  The program of \<^verbatim>\<open>src/pokemon/api.py\<close> walks the tree that
  \<^verbatim>\<open>requests.get(...).json()\<close> returns. A Python \<^verbatim>\<open>str\<close> is a sequence of
  Unicode code points, here a list of natural numbers; \<open>lit\<close> turns an ASCII literal of
  the source into such a sequence. A document is a value of \<open>json\<close>: a JSON object is
  the association list of its members in document order (a parsed object has pairwise
  distinct keys) and a number is an integer (the numbers of the documents this program
  reads: indices, base stats, accuracies).
\<close>

type_synonym codepoint = nat

type_synonym pystr = "codepoint list"

definition lit :: "string \<Rightarrow> pystr" where
  "lit s = map of_char s"

datatype json =
    JNull
  | JBool bool
  | JInt int
  | JStr pystr
  | JList "json list"
  | JObj "(pystr \<times> json) list"

text \<open>The exceptions the program can end with; the last two belong to the transport.\<close>

datatype error =
    KeyError
  | TypeError
  | IndexError
  | AttributeError
  | RequestException
  | JSONDecodeError

text \<open>Running one fallible step after another: the first exception ends the run.\<close>

fun seq :: "error + 'a \<Rightarrow> ('a \<Rightarrow> error + 'b) \<Rightarrow> error + 'b" where
  "seq (Inl e) f = Inl e"
| "seq (Inr v) f = f v"

subsection \<open>Subscripts and iteration\<close>

text \<open>
  \<^verbatim>\<open>x["k"]\<close> for a string literal \<open>k\<close>: a dict looks the key up and raises KeyError
  when it is missing; a list or a string refuses a string index and every other value is
  not subscriptable (TypeError both times).
\<close>

fun getitem_key :: "string \<Rightarrow> json \<Rightarrow> error + json" where
  "getitem_key k (JObj kvs) =
     (case map_of kvs (lit k) of None \<Rightarrow> Inl KeyError | Some v \<Rightarrow> Inr v)"
| "getitem_key k _ = Inl TypeError"

text \<open>\<^verbatim>\<open>x["a"]["b"]\<close>: one string subscript after another, from left to right.\<close>

fun getitem_path :: "string list \<Rightarrow> json \<Rightarrow> error + json" where
  "getitem_path [] x = Inr x"
| "getitem_path (k # ks) x = seq (getitem_key k x) (getitem_path ks)"

text \<open>
  \<^verbatim>\<open>x[0]\<close>: the first element of a list or the first character of a string, IndexError
  when it is empty; on a dict the key \<open>0\<close> is looked up, and a parsed JSON object has
  string keys only, so KeyError; every other value is not subscriptable.
\<close>

fun getitem_0 :: "json \<Rightarrow> error + json" where
  "getitem_0 (JList []) = Inl IndexError"
| "getitem_0 (JList (x # xs)) = Inr x"
| "getitem_0 (JStr []) = Inl IndexError"
| "getitem_0 (JStr (c # cs)) = Inr (JStr [c])"
| "getitem_0 (JObj kvs) = Inl KeyError"
| "getitem_0 _ = Inl TypeError"

text \<open>
  \<^verbatim>\<open>for x in v\<close>: a list yields its elements, a dict its keys, a string its
  characters; every other value is not iterable.
\<close>

fun py_iter :: "json \<Rightarrow> error + json list" where
  "py_iter (JList xs) = Inr xs"
| "py_iter (JObj kvs) = Inr (map (\<lambda>kv. JStr (fst kv)) kvs)"
| "py_iter (JStr s) = Inr (map (\<lambda>c. JStr [c]) s)"
| "py_iter _ = Inl TypeError"

subsection \<open>String methods\<close>

text \<open>
  \<^verbatim>\<open>str.lower()\<close>, \<^verbatim>\<open>str.capitalize()\<close> and \<^verbatim>\<open>str.title()\<close> are written as the
  interpreter (CPython 3.8 and later) computes them, over the tables of the Unicode
  Character Database. The tables are not part of the program; they are a parameter of
  every function that changes letter case: the full lower-case and title-case mappings
  of a code point (up to three code points each) and the properties Cased and
  Case\_Ignorable.
\<close>

record ucd =
  lower_full :: "codepoint \<Rightarrow> pystr"
  title_full :: "codepoint \<Rightarrow> pystr"
  is_cased :: "codepoint \<Rightarrow> bool"
  is_case_ignorable :: "codepoint \<Rightarrow> bool"

text \<open>
  The capital sigma \<open>U+03A3\<close> at position \<open>i\<close> of \<open>s\<close> becomes the final sigma
  \<open>U+03C2\<close> when, case-ignorable characters skipped, a cased character stands before it
  and none stands after it; otherwise it becomes \<open>U+03C3\<close>.
\<close>

definition handle_capital_sigma :: "ucd \<Rightarrow> pystr \<Rightarrow> nat \<Rightarrow> codepoint" where
  "handle_capital_sigma U s i =
     (let cased_before =
            (case dropWhile (is_case_ignorable U) (rev (take i s)) of
               [] \<Rightarrow> False
             | c # cs \<Rightarrow> is_cased U c);
          cased_after =
            (case dropWhile (is_case_ignorable U) (drop (Suc i) s) of
               [] \<Rightarrow> False
             | c # cs \<Rightarrow> is_cased U c)
      in if cased_before \<and> \<not> cased_after then 0x3C2 else 0x3C3)"

text \<open>The lower-case form of the character \<open>c\<close> that stands at position \<open>i\<close> of \<open>s\<close>.\<close>

definition lower_ucs4 :: "ucd \<Rightarrow> pystr \<Rightarrow> nat \<Rightarrow> codepoint \<Rightarrow> pystr" where
  "lower_ucs4 U s i c =
     (if c = 0x3A3 then [handle_capital_sigma U s i] else lower_full U c)"

text \<open>Lower-casing the characters \<open>rest\<close> that stand in \<open>s\<close> from position \<open>i\<close> on.\<close>

fun lower_from :: "ucd \<Rightarrow> pystr \<Rightarrow> nat \<Rightarrow> pystr \<Rightarrow> pystr" where
  "lower_from U s i [] = []"
| "lower_from U s i (c # rest) = lower_ucs4 U s i c @ lower_from U s (Suc i) rest"

text \<open>\<^verbatim>\<open>str.lower()\<close>.\<close>

definition str_lower :: "ucd \<Rightarrow> pystr \<Rightarrow> pystr" where
  "str_lower U s = lower_from U s 0 s"

text \<open>
  \<^verbatim>\<open>str.capitalize()\<close>: the first character in its title-case form, all the others
  in lower case; the empty string stays empty.
\<close>

definition str_capitalize :: "ucd \<Rightarrow> pystr \<Rightarrow> pystr" where
  "str_capitalize U s =
     (case s of [] \<Rightarrow> [] | c # rest \<Rightarrow> title_full U c @ lower_from U s 1 rest)"

text \<open>
  \<^verbatim>\<open>str.title()\<close>: one pass from left to right that remembers whether the previous
  character was a cased one; a character after a cased character is lower-cased, every
  other character is put in its title-case form.
\<close>

fun title_from :: "ucd \<Rightarrow> pystr \<Rightarrow> bool \<Rightarrow> nat \<Rightarrow> pystr \<Rightarrow> pystr" where
  "title_from U s previous_is_cased i [] = []"
| "title_from U s previous_is_cased i (c # rest) =
     (if previous_is_cased then lower_ucs4 U s i c else title_full U c)
       @ title_from U s (is_cased U c) (Suc i) rest"

definition str_title :: "ucd \<Rightarrow> pystr \<Rightarrow> pystr" where
  "str_title U s = title_from U s False 0 s"

text \<open>\<^verbatim>\<open>str.replace(old, new)\<close> for patterns of one character each.\<close>

definition str_replace :: "codepoint \<Rightarrow> codepoint \<Rightarrow> pystr \<Rightarrow> pystr" where
  "str_replace old new s = map (\<lambda>c. if c = old then new else c) s"

text \<open>
  The methods are looked up on the value at hand: only a string has them, any other
  value raises AttributeError. The newline is the code point 10, the space 32.
\<close>

fun py_title :: "ucd \<Rightarrow> json \<Rightarrow> error + pystr" where
  "py_title U (JStr s) = Inr (str_title U s)"
| "py_title U _ = Inl AttributeError"

fun py_replace_newline :: "json \<Rightarrow> error + pystr" where
  "py_replace_newline (JStr s) = Inr (str_replace 10 32 s)"
| "py_replace_newline _ = Inl AttributeError"

subsection \<open>The dict the program builds\<close>

text \<open>
  \<^verbatim>\<open>stats = {}\<close> is a Python dict: its items in insertion order. A key must be
  hashable (a list or a dict is not: TypeError), keys are compared with \<^verbatim>\<open>==\<close>, under
  which \<^verbatim>\<open>True == 1\<close> and \<^verbatim>\<open>False == 0\<close>, and assigning to a key that is present
  replaces its value where the key stands.
\<close>

type_synonym pydict = "(json \<times> json) list"

fun hashable :: "json \<Rightarrow> bool" where
  "hashable (JList xs) = False"
| "hashable (JObj kvs) = False"
| "hashable _ = True"

fun key_norm :: "json \<Rightarrow> json" where
  "key_norm (JBool b) = JInt (if b then 1 else 0)"
| "key_norm k = k"

definition key_eq :: "json \<Rightarrow> json \<Rightarrow> bool" where
  "key_eq a b = (key_norm a = key_norm b)"

fun dict_store :: "json \<Rightarrow> json \<Rightarrow> pydict \<Rightarrow> pydict" where
  "dict_store k v [] = [(k, v)]"
| "dict_store k v ((k', v') # d) =
     (if key_eq k k' then (k', v) # d else (k', v') # dict_store k v d)"

definition dict_setitem :: "json \<Rightarrow> json \<Rightarrow> pydict \<Rightarrow> error + pydict" where
  "dict_setitem k v d = (if hashable k then Inr (dict_store k v d) else Inl TypeError)"

fun dict_get :: "pydict \<Rightarrow> json \<Rightarrow> json option" where
  "dict_get [] k = None"
| "dict_get ((k', v') # d) k = (if key_eq k k' then Some v' else dict_get d k)"

section \<open>The transport\<close>

text \<open>
  \<^verbatim>\<open>requests.get(u).json()\<close> is the one external collaborator. \<open>net k u\<close> is what
  the \<open>k\<close>-th request of a run returns when it asks for \<open>u\<close>: a document or the
  exception of the transport. The program threads the number of requests made so far, so
  two requests for one locator may be answered differently.
\<close>

type_synonym transport = "nat \<Rightarrow> json \<Rightarrow> error + json"

section \<open>PokemonDataFetcher\<close>

record PokemonDataFetcher =
  pk_name :: pystr
  pokemon_json :: json

definition request_url :: "ucd \<Rightarrow> pystr \<Rightarrow> pystr" where
  "request_url U nm = lit ''https://pokeapi.co/api/v2/pokemon/'' @ str_lower U nm"



section \<open>PokemonParser\<close>

record PokemonParser =
  pokemon_data :: json


subsection \<open>parse_pokemon_moves\<close>

record Move =
  name :: json
  description :: pystr
  accuracy :: json
  dmg_type :: json

text \<open>
  The dict literal of the loop body, its four values evaluated in the order they are
  written.
\<close>

definition move_dict :: "ucd \<Rightarrow> json \<Rightarrow> json \<Rightarrow> error + Move" where
  "move_dict U move move_data =
     seq (getitem_path [''move'', ''name''] move) (\<lambda>n.
     seq (getitem_key ''flavor_text_entries'' move_data) (\<lambda>entries.
     seq (getitem_0 entries) (\<lambda>entry.
     seq (getitem_key ''flavor_text'' entry) (\<lambda>text.
     seq (py_replace_newline text) (\<lambda>replaced.
     seq (getitem_key ''accuracy'' move_data) (\<lambda>a.
     seq (getitem_path [''damage_class'', ''name''] move_data) (\<lambda>dn.
       Inr \<lparr>name = n, description = str_capitalize U replaced,
            accuracy = a, dmg_type = dn\<rparr>)))))))"

text \<open>One pass of the loop: the locator is read, the request made, the dict built.\<close>

definition moves_body ::
  "ucd \<Rightarrow> transport \<Rightarrow> nat \<Rightarrow> json \<Rightarrow> (error + Move) \<times> nat" where
  "moves_body U net k move =
     (case getitem_path [''move'', ''url''] move of
        Inl e \<Rightarrow> (Inl e, k)
      | Inr url \<Rightarrow> (seq (net k url) (move_dict U move), Suc k))"

fun moves_loop ::
  "ucd \<Rightarrow> transport \<Rightarrow> nat \<Rightarrow> json list \<Rightarrow> Move list \<Rightarrow> (error + Move list) \<times> nat" where
  "moves_loop U net k [] moves = (Inr moves, k)"
| "moves_loop U net k (move # rest) moves =
     (case moves_body U net k move of
        (Inl e, k') \<Rightarrow> (Inl e, k')
      | (Inr m, k') \<Rightarrow> moves_loop U net k' rest (moves @ [m]))"

definition parse_pokemon_moves ::
  "ucd \<Rightarrow> transport \<Rightarrow> nat \<Rightarrow> PokemonParser \<Rightarrow> (error + Move list) \<times> nat" where
  "parse_pokemon_moves U net k self =
     (case seq (getitem_key ''moves'' (pokemon_data self)) py_iter of
        Inl e \<Rightarrow> (Inl e, k)
      | Inr entries \<Rightarrow> moves_loop U net k entries [])"

subsection \<open>parse_pokemon_types\<close>

fun types_loop :: "ucd \<Rightarrow> json list \<Rightarrow> pystr list \<Rightarrow> error + pystr list" where
  "types_loop U [] types = Inr types"
| "types_loop U (slot # rest) types =
     seq (getitem_path [''type'', ''name''] slot) (\<lambda>n.
     seq (py_title U n) (\<lambda>s. types_loop U rest (types @ [s])))"

definition parse_pokemon_types :: "ucd \<Rightarrow> PokemonParser \<Rightarrow> error + pystr list" where
  "parse_pokemon_types U self =
     seq (getitem_key ''types'' (pokemon_data self)) (\<lambda>v.
     seq (py_iter v) (\<lambda>slots. types_loop U slots []))"

subsection \<open>parse_pokemon_stats\<close>

text \<open>
  In \<^verbatim>\<open>stats[stat["stat"]["name"]] = stat["base_stat"]\<close> the right-hand side is
  evaluated first, then the key, then the store.
\<close>

fun stats_loop :: "json list \<Rightarrow> pydict \<Rightarrow> error + pydict" where
  "stats_loop [] stats = Inr stats"
| "stats_loop (stat # rest) stats =
     seq (getitem_key ''base_stat'' stat) (\<lambda>b.
     seq (getitem_path [''stat'', ''name''] stat) (\<lambda>n.
     seq (dict_setitem n b stats) (\<lambda>stats'. stats_loop rest stats')))"

definition parse_pokemon_stats :: "PokemonParser \<Rightarrow> error + pydict" where
  "parse_pokemon_stats self =
     seq (getitem_key ''stats'' (pokemon_data self)) (\<lambda>v.
     seq (py_iter v) (\<lambda>entries. stats_loop entries []))"

subsection \<open>parse_pokemon_abilities\<close>

fun abilities_loop :: "ucd \<Rightarrow> json list \<Rightarrow> pystr list \<Rightarrow> error + pystr list" where
  "abilities_loop U [] abilities = Inr abilities"
| "abilities_loop U (ability # rest) abilities =
     seq (getitem_path [''ability'', ''name''] ability) (\<lambda>n.
     seq (py_title U n) (\<lambda>s. abilities_loop U rest (abilities @ [s])))"

definition parse_pokemon_abilities :: "ucd \<Rightarrow> PokemonParser \<Rightarrow> error + pystr list" where
  "parse_pokemon_abilities U self =
     seq (getitem_key ''abilities'' (pokemon_data self)) (\<lambda>v.
     seq (py_iter v) (\<lambda>entries. abilities_loop U entries []))"

subsection \<open>parse_pokemon_game_version\<close>

text \<open>
  The loop returns from inside at the first match; when it runs to its end the function
  falls off its last line and the caller receives \<^verbatim>\<open>None\<close>, here \<open>JNull\<close>.
\<close>

fun game_version_loop :: "json list \<Rightarrow> error + json" where
  "game_version_loop [] = Inr JNull"
| "game_version_loop (version # rest) =
     seq (getitem_path [''version'', ''name''] version) (\<lambda>n.
       if n \<in> set [JStr (lit ''diamond''), JStr (lit ''black'')]
       then getitem_key ''game_index'' version
       else game_version_loop rest)"

definition parse_pokemon_game_version :: "PokemonParser \<Rightarrow> error + json" where
  "parse_pokemon_game_version self =
     seq (getitem_key ''game_indices'' (pokemon_data self)) (\<lambda>v.
     seq (py_iter v) game_version_loop)"

section \<open>Pokemon\<close>

record Pokemon =
  pk_name :: pystr
  data_fetcher :: PokemonDataFetcher
  parser :: PokemonParser


definition get_moves ::
  "ucd \<Rightarrow> transport \<Rightarrow> nat \<Rightarrow> Pokemon \<Rightarrow> (error + Move list) \<times> nat" where
  "get_moves U net k self = parse_pokemon_moves U net k (parser self)"

definition get_types :: "ucd \<Rightarrow> Pokemon \<Rightarrow> error + pystr list" where
  "get_types U self = parse_pokemon_types U (parser self)"

definition get_stats :: "Pokemon \<Rightarrow> error + pydict" where
  "get_stats self = parse_pokemon_stats (parser self)"

definition get_abilities :: "ucd \<Rightarrow> Pokemon \<Rightarrow> error + pystr list" where
  "get_abilities U self = parse_pokemon_abilities U (parser self)"

definition get_game_version :: "Pokemon \<Rightarrow> error + json" where
  "get_game_version self = parse_pokemon_game_version (parser self)"

section \<open>The program on a store of objects\<close>

text \<open>
  Python's lists and dicts are objects with an identity: \<^verbatim>\<open>moves.append(...)\<close> and
  \<^verbatim>\<open>stats[k] = v\<close> change an object in place, and whoever holds a reference sees the
  change. To say that the extractors leave the creature document alone, the program is
  written once more over a store: a value is a scalar or the address of a list or a dict,
  the store is the sequence of the objects allocated so far, and a new object takes the
  next address. The loops run over the elements that the list holds when the loop starts;
  the only objects their bodies write to are the ones the function has allocated itself.
\<close>

type_synonym addr = nat

datatype val = VNull | VBool bool | VInt int | VStr pystr | VRef addr

datatype obj = OList "val list" | ODict "(val \<times> val) list"

type_synonym store = "obj list"

definition obj_at :: "store \<Rightarrow> addr \<Rightarrow> obj option" where
  "obj_at s a = (if a < length s then Some (s ! a) else None)"

definition alloc :: "obj \<Rightarrow> store \<Rightarrow> addr \<times> store" where
  "alloc ob s = (length s, s @ [ob])"

text \<open>What \<^verbatim>\<open>.json()\<close> builds from a response: fresh objects, children first.\<close>

fun load :: "json \<Rightarrow> store \<Rightarrow> val \<times> store"
  and load_list :: "json list \<Rightarrow> store \<Rightarrow> val list \<times> store"
  and load_fields :: "(pystr \<times> json) list \<Rightarrow> store \<Rightarrow> (val \<times> val) list \<times> store" where
  "load JNull s = (VNull, s)"
| "load (JBool b) s = (VBool b, s)"
| "load (JInt i) s = (VInt i, s)"
| "load (JStr t) s = (VStr t, s)"
| "load (JList xs) s =
     (case load_list xs s of (vs, s') \<Rightarrow> (case alloc (OList vs) s' of (a, s'') \<Rightarrow> (VRef a, s'')))"
| "load (JObj kvs) s =
     (case load_fields kvs s of (fs, s') \<Rightarrow> (case alloc (ODict fs) s' of (a, s'') \<Rightarrow> (VRef a, s'')))"
| "load_list [] s = ([], s)"
| "load_list (x # xs) s =
     (case load x s of (v, s') \<Rightarrow> (case load_list xs s' of (vs, s'') \<Rightarrow> (v # vs, s'')))"
| "load_fields [] s = ([], s)"
| "load_fields (kv # kvs) s =
     (case load (snd kv) s of (v, s') \<Rightarrow>
        (case load_fields kvs s' of (fs, s'') \<Rightarrow> ((VStr (fst kv), v) # fs, s'')))"

text \<open>
  Reading a value back as a document, to a given depth: \<open>None\<close> when the depth does not
  suffice, an address is not allocated or a dict has a key that is not a string.
\<close>

fun those_fields :: "(val \<times> json option) list \<Rightarrow> (pystr \<times> json) list option" where
  "those_fields [] = Some []"
| "those_fields ((VStr k, Some j) # rest) = map_option (\<lambda>fs. (k, j) # fs) (those_fields rest)"
| "those_fields (_ # rest) = None"

fun st_read :: "nat \<Rightarrow> store \<Rightarrow> val \<Rightarrow> json option" where
  "st_read n s VNull = Some JNull"
| "st_read n s (VBool b) = Some (JBool b)"
| "st_read n s (VInt i) = Some (JInt i)"
| "st_read n s (VStr t) = Some (JStr t)"
| "st_read 0 s (VRef a) = None"
| "st_read (Suc n) s (VRef a) =
     (case obj_at s a of
        None \<Rightarrow> None
      | Some (OList vs) \<Rightarrow> map_option JList (those (map (st_read n s) vs))
      | Some (ODict kvs) \<Rightarrow>
          map_option JObj (those_fields (map (\<lambda>kv. (fst kv, st_read n s (snd kv))) kvs)))"

subsection \<open>Subscripts, iteration and methods on the store\<close>

fun st_getitem_key :: "string \<Rightarrow> val \<Rightarrow> store \<Rightarrow> error + val" where
  "st_getitem_key k (VRef a) s =
     (case obj_at s a of
        Some (ODict kvs) \<Rightarrow> (case map_of kvs (VStr (lit k)) of None \<Rightarrow> Inl KeyError | Some v \<Rightarrow> Inr v)
      | _ \<Rightarrow> Inl TypeError)"
| "st_getitem_key k _ s = Inl TypeError"

fun st_getitem_path :: "string list \<Rightarrow> val \<Rightarrow> store \<Rightarrow> error + val" where
  "st_getitem_path [] x s = Inr x"
| "st_getitem_path (k # ks) x s = seq (st_getitem_key k x s) (\<lambda>y. st_getitem_path ks y s)"

fun st_getitem_0 :: "val \<Rightarrow> store \<Rightarrow> error + val" where
  "st_getitem_0 (VRef a) s =
     (case obj_at s a of
        Some (OList []) \<Rightarrow> Inl IndexError
      | Some (OList (x # xs)) \<Rightarrow> Inr x
      | Some (ODict kvs) \<Rightarrow> Inl KeyError
      | None \<Rightarrow> Inl TypeError)"
| "st_getitem_0 (VStr []) s = Inl IndexError"
| "st_getitem_0 (VStr (c # cs)) s = Inr (VStr [c])"
| "st_getitem_0 _ s = Inl TypeError"

fun st_iter :: "val \<Rightarrow> store \<Rightarrow> error + val list" where
  "st_iter (VRef a) s =
     (case obj_at s a of
        Some (OList xs) \<Rightarrow> Inr xs
      | Some (ODict kvs) \<Rightarrow> Inr (map fst kvs)
      | None \<Rightarrow> Inl TypeError)"
| "st_iter (VStr t) s = Inr (map (\<lambda>c. VStr [c]) t)"
| "st_iter _ s = Inl TypeError"

fun st_title :: "ucd \<Rightarrow> val \<Rightarrow> error + pystr" where
  "st_title U (VStr t) = Inr (str_title U t)"
| "st_title U _ = Inl AttributeError"

fun st_replace_newline :: "val \<Rightarrow> error + pystr" where
  "st_replace_newline (VStr t) = Inr (str_replace 10 32 t)"
| "st_replace_newline _ = Inl AttributeError"

text \<open>\<^verbatim>\<open>xs.append(v)\<close> and \<^verbatim>\<open>d[k] = v\<close> on the object at an address.\<close>

definition st_append :: "addr \<Rightarrow> val \<Rightarrow> store \<Rightarrow> store" where
  "st_append a v s =
     (case obj_at s a of Some (OList xs) \<Rightarrow> s[a := OList (xs @ [v])] | _ \<Rightarrow> s)"

fun st_hashable :: "val \<Rightarrow> bool" where
  "st_hashable (VRef a) = False"
| "st_hashable _ = True"

fun st_key_norm :: "val \<Rightarrow> val" where
  "st_key_norm (VBool b) = VInt (if b then 1 else 0)"
| "st_key_norm k = k"

fun st_dict_store :: "val \<Rightarrow> val \<Rightarrow> (val \<times> val) list \<Rightarrow> (val \<times> val) list" where
  "st_dict_store k v [] = [(k, v)]"
| "st_dict_store k v ((k', v') # d) =
     (if st_key_norm k = st_key_norm k' then (k', v) # d else (k', v') # st_dict_store k v d)"

definition st_setitem :: "addr \<Rightarrow> val \<Rightarrow> val \<Rightarrow> store \<Rightarrow> error + store" where
  "st_setitem a k v s =
     (if st_hashable k
      then (case obj_at s a of
              Some (ODict d) \<Rightarrow> Inr (s[a := ODict (st_dict_store k v d)])
            | _ \<Rightarrow> Inr s)
      else Inl TypeError)"

subsection \<open>The five extractors on the store\<close>

text \<open>
  Each takes the value of \<^verbatim>\<open>self.pokemon_data\<close> and the store and returns its
  result, a value in the store it leaves behind.
\<close>

fun st_types_loop :: "ucd \<Rightarrow> addr \<Rightarrow> val list \<Rightarrow> store \<Rightarrow> (error + val) \<times> store" where
  "st_types_loop U types [] s = (Inr (VRef types), s)"
| "st_types_loop U types (slot # rest) s =
     (case seq (st_getitem_path [''type'', ''name''] slot s) (st_title U) of
        Inl e \<Rightarrow> (Inl e, s)
      | Inr t \<Rightarrow> st_types_loop U types rest (st_append types (VStr t) s))"

definition st_parse_pokemon_types :: "ucd \<Rightarrow> val \<Rightarrow> store \<Rightarrow> (error + val) \<times> store" where
  "st_parse_pokemon_types U data s =
     (case alloc (OList []) s of (types, s0) \<Rightarrow>
        (case seq (st_getitem_key ''types'' data s0) (\<lambda>v. st_iter v s0) of
           Inl e \<Rightarrow> (Inl e, s0)
         | Inr slots \<Rightarrow> st_types_loop U types slots s0))"

fun st_abilities_loop ::
  "ucd \<Rightarrow> addr \<Rightarrow> val list \<Rightarrow> store \<Rightarrow> (error + val) \<times> store" where
  "st_abilities_loop U abilities [] s = (Inr (VRef abilities), s)"
| "st_abilities_loop U abilities (ability # rest) s =
     (case seq (st_getitem_path [''ability'', ''name''] ability s) (st_title U) of
        Inl e \<Rightarrow> (Inl e, s)
      | Inr t \<Rightarrow> st_abilities_loop U abilities rest (st_append abilities (VStr t) s))"

definition st_parse_pokemon_abilities ::
  "ucd \<Rightarrow> val \<Rightarrow> store \<Rightarrow> (error + val) \<times> store" where
  "st_parse_pokemon_abilities U data s =
     (case alloc (OList []) s of (abilities, s0) \<Rightarrow>
        (case seq (st_getitem_key ''abilities'' data s0) (\<lambda>v. st_iter v s0) of
           Inl e \<Rightarrow> (Inl e, s0)
         | Inr entries \<Rightarrow> st_abilities_loop U abilities entries s0))"

fun st_stats_loop :: "addr \<Rightarrow> val list \<Rightarrow> store \<Rightarrow> (error + val) \<times> store" where
  "st_stats_loop stats [] s = (Inr (VRef stats), s)"
| "st_stats_loop stats (stat # rest) s =
     (case seq (st_getitem_key ''base_stat'' stat s) (\<lambda>b.
           seq (st_getitem_path [''stat'', ''name''] stat s) (\<lambda>n.
           st_setitem stats n b s)) of
        Inl e \<Rightarrow> (Inl e, s)
      | Inr s' \<Rightarrow> st_stats_loop stats rest s')"

definition st_parse_pokemon_stats :: "val \<Rightarrow> store \<Rightarrow> (error + val) \<times> store" where
  "st_parse_pokemon_stats data s =
     (case alloc (ODict []) s of (stats, s0) \<Rightarrow>
        (case seq (st_getitem_key ''stats'' data s0) (\<lambda>v. st_iter v s0) of
           Inl e \<Rightarrow> (Inl e, s0)
         | Inr entries \<Rightarrow> st_stats_loop stats entries s0))"

fun st_game_version_loop :: "val list \<Rightarrow> store \<Rightarrow> error + val" where
  "st_game_version_loop [] s = Inr VNull"
| "st_game_version_loop (version # rest) s =
     seq (st_getitem_path [''version'', ''name''] version s) (\<lambda>n.
       if n \<in> set [VStr (lit ''diamond''), VStr (lit ''black'')]
       then st_getitem_key ''game_index'' version s
       else st_game_version_loop rest s)"

definition st_parse_pokemon_game_version :: "val \<Rightarrow> store \<Rightarrow> (error + val) \<times> store" where
  "st_parse_pokemon_game_version data s =
     (seq (st_getitem_key ''game_indices'' data s) (\<lambda>v.
      seq (st_iter v s) (\<lambda>entries. st_game_version_loop entries s)), s)"

text \<open>
  The request: the locator is handed to the transport as the document it denotes, and
  the response is loaded into the store.
\<close>

definition st_request :: "transport \<Rightarrow> nat \<Rightarrow> val \<Rightarrow> store \<Rightarrow> (error + val) \<times> store" where
  "st_request net k u s =
     (case st_read (length s) s u of
        None \<Rightarrow> (Inl TypeError, s)
      | Some locator \<Rightarrow>
          (case net k locator of
             Inl e \<Rightarrow> (Inl e, s)
           | Inr j \<Rightarrow> (case load j s of (v, s') \<Rightarrow> (Inr v, s'))))"

definition st_move_dict ::
  "ucd \<Rightarrow> val \<Rightarrow> val \<Rightarrow> store \<Rightarrow> (error + val) \<times> store" where
  "st_move_dict U move move_data s =
     (case seq (st_getitem_path [''move'', ''name''] move s) (\<lambda>n.
           seq (st_getitem_key ''flavor_text_entries'' move_data s) (\<lambda>entries.
           seq (st_getitem_0 entries s) (\<lambda>entry.
           seq (st_getitem_key ''flavor_text'' entry s) (\<lambda>text.
           seq (st_replace_newline text) (\<lambda>replaced.
           seq (st_getitem_key ''accuracy'' move_data s) (\<lambda>a.
           seq (st_getitem_path [''damage_class'', ''name''] move_data s) (\<lambda>dn.
             Inr (ODict [(VStr (lit ''name''), n),
                         (VStr (lit ''description''), VStr (str_capitalize U replaced)),
                         (VStr (lit ''accuracy''), a),
                         (VStr (lit ''dmg_type''), dn)])))))))) of
        Inl e \<Rightarrow> (Inl e, s)
      | Inr ob \<Rightarrow> (case alloc ob s of (a, s') \<Rightarrow> (Inr (VRef a), s')))"

definition st_moves_body ::
  "ucd \<Rightarrow> transport \<Rightarrow> nat \<Rightarrow> addr \<Rightarrow> val \<Rightarrow> store \<Rightarrow> (error + unit) \<times> nat \<times> store" where
  "st_moves_body U net k moves move s =
     (case st_getitem_path [''move'', ''url''] move s of
        Inl e \<Rightarrow> (Inl e, k, s)
      | Inr u \<Rightarrow>
          (case st_request net k u s of
             (Inl e, s1) \<Rightarrow> (Inl e, Suc k, s1)
           | (Inr move_data, s1) \<Rightarrow>
               (case st_move_dict U move move_data s1 of
                  (Inl e, s2) \<Rightarrow> (Inl e, Suc k, s2)
                | (Inr m, s2) \<Rightarrow> (Inr (), Suc k, st_append moves m s2))))"

fun st_moves_loop ::
  "ucd \<Rightarrow> transport \<Rightarrow> nat \<Rightarrow> addr \<Rightarrow> val list \<Rightarrow> store \<Rightarrow> (error + val) \<times> nat \<times> store" where
  "st_moves_loop U net k moves [] s = (Inr (VRef moves), k, s)"
| "st_moves_loop U net k moves (move # rest) s =
     (case st_moves_body U net k moves move s of
        (Inl e, k', s') \<Rightarrow> (Inl e, k', s')
      | (Inr ok, k', s') \<Rightarrow> st_moves_loop U net k' moves rest s')"

definition st_parse_pokemon_moves ::
  "ucd \<Rightarrow> transport \<Rightarrow> nat \<Rightarrow> val \<Rightarrow> store \<Rightarrow> (error + val) \<times> nat \<times> store" where
  "st_parse_pokemon_moves U net k data s =
     (case alloc (OList []) s of (moves, s0) \<Rightarrow>
        (case seq (st_getitem_key ''moves'' data s0) (\<lambda>v. st_iter v s0) of
           Inl e \<Rightarrow> (Inl e, k, s0)
         | Inr entries \<Rightarrow> st_moves_loop U net k moves entries s0))"

text \<open>A store extends another when it has, at least, the same objects at the same addresses.\<close>

definition extends :: "store \<Rightarrow> store \<Rightarrow> bool" where
  "extends s s' = (length s \<le> length s' \<and> take (length s) s' = s)"

section \<open>Notions of the specification\<close>

text \<open>
  The ASCII letters and their case mapping, written out: \<open>A\<close> to \<open>Z\<close> are the code
  points 65 to 90, \<open>a\<close> to \<open>z\<close> the code points 97 to 122, and a capital letter and its
  small letter are 32 apart.
\<close>

definition ascii_letter :: "codepoint \<Rightarrow> bool" where
  "ascii_letter c = ((65 \<le> c \<and> c \<le> 90) \<or> (97 \<le> c \<and> c \<le> 122))"

definition ascii_lower :: "codepoint \<Rightarrow> codepoint" where
  "ascii_lower c = (if 65 \<le> c \<and> c \<le> 90 then c + 32 else c)"

definition ascii_upper :: "codepoint \<Rightarrow> codepoint" where
  "ascii_upper c = (if 97 \<le> c \<and> c \<le> 122 then c - 32 else c)"

text \<open>
  What the Unicode Character Database says about the ASCII range, the code points below
  128: the only cased characters are the letters, and the case mappings are those above,
  one code point each.
\<close>

definition ascii_ucd :: "ucd \<Rightarrow> bool" where
  "ascii_ucd U =
     (\<forall>c<128. lower_full U c = [ascii_lower c] \<and> title_full U c = [ascii_upper c]
               \<and> is_cased U c = ascii_letter c)"

text \<open>
  Title-case as the specification's glossary words it: the first letter of each word in
  upper case, the rest of the word unchanged. A word is a maximal run of cased
  characters, as it is for \<^verbatim>\<open>str.title()\<close>.
\<close>

fun spec_title_from :: "ucd \<Rightarrow> bool \<Rightarrow> pystr \<Rightarrow> pystr" where
  "spec_title_from U in_word [] = []"
| "spec_title_from U in_word (c # cs) =
     (if in_word then [c] else title_full U c) @ spec_title_from U (is_cased U c) cs"

definition spec_title_case :: "ucd \<Rightarrow> pystr \<Rightarrow> pystr" where
  "spec_title_case U s = spec_title_from U False s"

text \<open>
  Two names differ only in letter case when they have the same length and, position by
  position, the characters are equal or one is the lower-case form of the other.
\<close>

definition case_variant :: "ucd \<Rightarrow> codepoint \<Rightarrow> codepoint \<Rightarrow> bool" where
  "case_variant U c d = (c = d \<or> lower_full U c = [d] \<or> lower_full U d = [c])"


text \<open>
  The shapes of the specification's data model. A move reference carries a name and a
  locator; a move detail carries a non-empty list of flavor-text entries whose first
  entry has the text \<open>s\<close>, an accuracy and the name of a damage class.
\<close>

definition move_ref :: "json \<Rightarrow> json \<Rightarrow> json \<Rightarrow> bool" where
  "move_ref e n url =
     (getitem_path [''move'', ''name''] e = Inr n
      \<and> getitem_path [''move'', ''url''] e = Inr url)"

definition move_detail :: "json \<Rightarrow> pystr \<Rightarrow> json \<Rightarrow> json \<Rightarrow> bool" where
  "move_detail d s a t =
     ((case getitem_key ''flavor_text_entries'' d of
         Inr (JList (f # rest)) \<Rightarrow> getitem_key ''flavor_text'' f = Inr (JStr s)
       | _ \<Rightarrow> False)
      \<and> getitem_key ''accuracy'' d = Inr a
      \<and> getitem_path [''damage_class'', ''name''] d = Inr t)"

text \<open>
  The keys of an insertion-ordered map that was filled from a list of keys: each key
  once, where it first occurred.
\<close>

fun first_occurrences :: "'a list \<Rightarrow> 'a list" where
  "first_occurrences [] = []"
| "first_occurrences (x # xs) = x # filter (\<lambda>y. y \<noteq> x) (first_occurrences xs)"

section \<open>Fixtures\<close>

text \<open>
  A table that agrees with the Unicode Character Database on the ASCII range and on the
  code points the examples use beyond it: sharp s \<open>U+00DF\<close>, \<open>E\<close> with acute
  \<open>U+00C9\<close> and \<open>U+00E9\<close>, the Greek omicron \<open>U+039F\<close> and \<open>U+03BF\<close> and the
  sigmas \<open>U+03A3\<close>, \<open>U+03C2\<close> and \<open>U+03C3\<close>. Every other code point it maps to
  itself and takes as neither cased nor case-ignorable; the examples use none of them.
\<close>

definition ucd_sample :: ucd where
  "ucd_sample =
     \<lparr>lower_full = (\<lambda>c. if 65 \<le> c \<and> c \<le> 90 then [c + 32]
                         else if c = 0xC9 then [0xE9]
                         else if c = 0x39F then [0x3BF]
                         else if c = 0x3A3 then [0x3C3]
                         else [c]),
      title_full = (\<lambda>c. if 97 \<le> c \<and> c \<le> 122 then [c - 32]
                         else if c = 0xDF then [0x53, 0x73]
                         else if c = 0xE9 then [0xC9]
                         else if c = 0x3BF then [0x39F]
                         else if c = 0x3C2 then [0x3A3]
                         else if c = 0x3C3 then [0x3A3]
                         else [c]),
      is_cased = (\<lambda>c. (65 \<le> c \<and> c \<le> 90) \<or> (97 \<le> c \<and> c \<le> 122)
                       \<or> c \<in> set [0xDF, 0xC9, 0xE9, 0x39F, 0x3A3, 0x3BF, 0x3C2, 0x3C3]),
      is_case_ignorable = (\<lambda>c. c \<in> set [0x27, 0x2E, 0x3A, 0x5E, 0x60])\<rparr>"

text \<open>
  A creature document with its moves, the detail documents behind their locators, and
  a transport that serves them; the detail behind \<open>move/0\<close> has no flavor text at all.
\<close>

definition tackle_detail :: json where
  "tackle_detail = JObj
     [(lit ''accuracy'', JInt 100),
      (lit ''damage_class'', JObj [(lit ''name'', JStr (lit ''physical''))]),
      (lit ''flavor_text_entries'',
         JList [JObj [(lit ''flavor_text'', JStr (lit ''tackle'' @ [10] @ lit ''attack''))],
                JObj [(lit ''flavor_text'', JStr (lit ''A charge.''))]])]"

definition swift_detail :: json where
  "swift_detail = JObj
     [(lit ''accuracy'', JNull),
      (lit ''damage_class'', JObj [(lit ''name'', JStr (lit ''special''))]),
      (lit ''flavor_text_entries'',
         JList [JObj [(lit ''flavor_text'', JStr (lit ''STAR-shaped rays''))]])]"

definition strasse_detail :: json where
  "strasse_detail = JObj
     [(lit ''accuracy'', JInt 95),
      (lit ''damage_class'', JObj [(lit ''name'', JStr (lit ''status''))]),
      (lit ''flavor_text_entries'',
         JList [JObj [(lit ''flavor_text'', JStr ([0xDF] @ lit ''TRASSE'' @ [0xC9]))]])]"

definition blank_detail :: json where
  "blank_detail = JObj
     [(lit ''accuracy'', JInt 90),
      (lit ''damage_class'', JObj [(lit ''name'', JStr (lit ''status''))]),
      (lit ''flavor_text_entries'', JList [])]"

definition example_net :: transport where
  "example_net k url =
     (if url = JStr (lit ''move/33'') then Inr tackle_detail
      else if url = JStr (lit ''move/129'') then Inr swift_detail
      else if url = JStr (lit ''move/7'') then Inr strasse_detail
      else if url = JStr (lit ''move/0'') then Inr blank_detail
      else Inl RequestException)"

definition move_entry :: "string \<Rightarrow> string \<Rightarrow> json" where
  "move_entry n url =
     JObj [(lit ''move'', JObj [(lit ''name'', JStr (lit n)), (lit ''url'', JStr (lit url))])]"

definition example_moves :: "json list" where
  "example_moves =
     [move_entry ''tackle'' ''move/33'', move_entry ''swift'' ''move/129'',
      move_entry ''strasse'' ''move/7'']"

definition blank_moves :: "json list" where
  "blank_moves = [move_entry ''tackle'' ''move/33'', move_entry ''glitch'' ''move/0'']"

definition stat_entry :: "string \<Rightarrow> int \<Rightarrow> json" where
  "stat_entry n b =
     JObj [(lit ''base_stat'', JInt b), (lit ''stat'', JObj [(lit ''name'', JStr (lit n))])]"

definition example_stats :: "json list" where
  "example_stats = [stat_entry ''hp'' 35, stat_entry ''attack'' 55, stat_entry ''hp'' 40]"

definition version_entry :: "string \<Rightarrow> int \<Rightarrow> json" where
  "version_entry n g =
     JObj [(lit ''game_index'', JInt g), (lit ''version'', JObj [(lit ''name'', JStr (lit n))])]"

definition type_entry :: "pystr \<Rightarrow> json" where
  "type_entry n = JObj [(lit ''type'', JObj [(lit ''name'', JStr n)])]"

definition example_doc :: json where
  "example_doc = JObj
     [(lit ''abilities'',
         JList [JObj [(lit ''ability'', JObj [(lit ''name'', JStr (lit ''static''))])]]),
      (lit ''game_indices'', JList [version_entry ''black'' 5]),
      (lit ''moves'', JList [move_entry ''tackle'' ''move/33'']),
      (lit ''stats'', JList [stat_entry ''hp'' 35]),
      (lit ''types'', JList [type_entry (lit ''electric'')])]"

section \<open>Facts about literals and the string methods\<close>

lemma lit_eq_iff [simp]: "lit a = lit b \<longleftrightarrow> a = b"
  by (simp add: lit_def inj_of_char)

lemma lower_ucs4_ascii:
  "ascii_ucd U \<Longrightarrow> c < 128 \<Longrightarrow> lower_ucs4 U s i c = [ascii_lower c]"
  by (simp add: lower_ucs4_def ascii_ucd_def)






lemma length_title_from_ascii:
  "ascii_ucd U \<Longrightarrow> \<forall>c\<in>set rest. c < 128 \<Longrightarrow> length (title_from U s p i rest) = length rest"
  by (induction rest arbitrary: p i) (auto simp: lower_ucs4_ascii ascii_ucd_def)

lemma title_from_ascii_nth:
  "ascii_ucd U \<Longrightarrow> \<forall>c\<in>set rest. c < 128 \<Longrightarrow> j < length rest \<Longrightarrow>
   title_from U s p i rest ! j =
     (if (if j = 0 then p else ascii_letter (rest ! (j - 1))) then ascii_lower (rest ! j)
      else ascii_upper (rest ! j))"
proof (induction rest arbitrary: p i j)
  case Nil
  then show ?case by simp
next
  case (Cons c cs)
  from Cons.prems have c: "c < 128" and cs: "\<forall>c\<in>set cs. c < 128" by simp_all
  have hd: "(if p then lower_ucs4 U s i c else title_full U c)
      = [if p then ascii_lower c else ascii_upper c]"
    using Cons.prems(1) c by (simp add: lower_ucs4_ascii ascii_ucd_def)
  have cased: "is_cased U c = ascii_letter c"
    using Cons.prems(1) c by (simp add: ascii_ucd_def)
  show ?case
  proof (cases j)
    case 0
    then show ?thesis by (simp add: hd)
  next
    case (Suc j')
    with Cons.prems have "j' < length cs" by simp
    from Cons.IH [OF Cons.prems(1) cs this, of "is_cased U c" "Suc i"] Suc show ?thesis
      by (cases j') (simp_all add: hd cased)
  qed
qed

lemma str_title_ascii_nth:
  "ascii_ucd U \<Longrightarrow> \<forall>c\<in>set s. c < 128 \<Longrightarrow> j < length s \<Longrightarrow>
   str_title U s ! j =
     (if 0 < j \<and> ascii_letter (s ! (j - 1)) then ascii_lower (s ! j) else ascii_upper (s ! j))"
  by (simp add: str_title_def title_from_ascii_nth)

lemma length_str_title_ascii:
  "ascii_ucd U \<Longrightarrow> \<forall>c\<in>set s. c < 128 \<Longrightarrow> length (str_title U s) = length s"
  by (simp add: str_title_def length_title_from_ascii)


section \<open>parse\_pokemon\_game\_version\<close>

lemma game_version_loop_first:
  assumes "\<forall>x\<in>set pre. \<exists>n. getitem_path [''version'', ''name''] x = Inr n \<and>
             n \<noteq> JStr (lit ''diamond'') \<and> n \<noteq> JStr (lit ''black'')"
    and "getitem_path [''version'', ''name''] e = Inr n"
    and "n = JStr (lit ''diamond'') \<or> n = JStr (lit ''black'')"
  shows "game_version_loop (pre @ e # post) = getitem_key ''game_index'' e"
  using assms by (induction pre) auto

lemma game_version_loop_none:
  assumes "\<forall>x\<in>set es. \<exists>n. getitem_path [''version'', ''name''] x = Inr n \<and>
             n \<noteq> JStr (lit ''diamond'') \<and> n \<noteq> JStr (lit ''black'')"
  shows "game_version_loop es = Inr JNull"
  using assms by (induction es) auto

text \<open>
  C1. When \<open>game_indices\<close> is a list in which the entry \<open>e\<close> is the first whose
  \<open>version.name\<close> is \<open>"diamond"\<close> or \<open>"black"\<close> (every entry before it carries a
  version name that is neither), the result is the \<open>game_index\<close> of \<open>e\<close>. The entries
  after \<open>e\<close> are arbitrary: a later match is never the result.
\<close>

theorem game_version_first_match:
  assumes "getitem_key ''game_indices'' (pokemon_data self) = Inr (JList (pre @ e # post))"
    and "\<forall>x\<in>set pre. \<exists>n. getitem_path [''version'', ''name''] x = Inr n \<and>
             n \<noteq> JStr (lit ''diamond'') \<and> n \<noteq> JStr (lit ''black'')"
    and "getitem_path [''version'', ''name''] e = Inr n"
    and "n = JStr (lit ''diamond'') \<or> n = JStr (lit ''black'')"
    and "getitem_key ''game_index'' e = Inr g"
  shows "parse_pokemon_game_version self = Inr g"
  using assms game_version_loop_first [of pre e n post]
  by (simp add: parse_pokemon_game_version_def)

text \<open>The entries red/1, black/5, diamond/9 of the specification give 5.\<close>

theorem game_version_first_match_witness:
  "parse_pokemon_game_version
     \<lparr>pokemon_data = JObj [(lit ''game_indices'', JList
        [version_entry ''red'' 1, version_entry ''black'' 5, version_entry ''diamond'' 9])]\<rparr>
   = Inr (JInt 5)"
  by (rule game_version_first_match
       [where pre = "[version_entry ''red'' 1]"
          and e = "version_entry ''black'' 5"
          and post = "[version_entry ''diamond'' 9]"
          and n = "JStr (lit ''black'')"])
     (simp_all add: version_entry_def)

text \<open>
  C5. When \<open>game_indices\<close> is a list, empty or not, whose entries all carry a version
  name that is neither \<open>"diamond"\<close> nor \<open>"black"\<close>, the function returns \<^verbatim>\<open>None\<close>:
  a value, not the number zero and not an exception.
\<close>

theorem game_version_absent:
  assumes "getitem_key ''game_indices'' (pokemon_data self) = Inr (JList es)"
    and "\<forall>x\<in>set es. \<exists>n. getitem_path [''version'', ''name''] x = Inr n \<and>
             n \<noteq> JStr (lit ''diamond'') \<and> n \<noteq> JStr (lit ''black'')"
  shows "parse_pokemon_game_version self = Inr JNull
         \<and> parse_pokemon_game_version self \<noteq> Inr (JInt 0)
         \<and> (\<forall>err. parse_pokemon_game_version self \<noteq> Inl err)"
  using assms game_version_loop_none [of es]
  by (simp add: parse_pokemon_game_version_def)

theorem game_version_absent_witness:
  "parse_pokemon_game_version
     \<lparr>pokemon_data = JObj [(lit ''game_indices'', JList
        [version_entry ''red'' 1, version_entry ''blue'' 1])]\<rparr>
     = Inr JNull
   \<and> parse_pokemon_game_version \<lparr>pokemon_data = JObj [(lit ''game_indices'', JList [])]\<rparr>
     = Inr JNull"
proof -
  have a: "parse_pokemon_game_version
     \<lparr>pokemon_data = JObj [(lit ''game_indices'', JList
        [version_entry ''red'' 1, version_entry ''blue'' 1])]\<rparr>
     = Inr JNull"
    using game_version_absent
       [where es = "[version_entry ''red'' 1, version_entry ''blue'' 1]"
          and self = "\<lparr>pokemon_data = JObj [(lit ''game_indices'', JList
        [version_entry ''red'' 1, version_entry ''blue'' 1])]\<rparr>"]
    by (simp add: version_entry_def)
  have b: "parse_pokemon_game_version \<lparr>pokemon_data = JObj [(lit ''game_indices'', JList [])]\<rparr>
      = Inr JNull"
    using game_version_absent
       [where es = "[]" and self = "\<lparr>pokemon_data = JObj [(lit ''game_indices'', JList [])]\<rparr>"]
    by simp
  show ?thesis using a b by simp
qed

section \<open>parse\_pokemon\_types\<close>

lemma types_loop_eq:
  "map (getitem_path [''type'', ''name'']) slots = map (\<lambda>n. Inr (JStr n)) names \<Longrightarrow>
   types_loop U slots acc = Inr (acc @ map (str_title U) names)"
proof (induction slots arbitrary: acc names)
  case Nil
  then show ?case by simp
next
  case (Cons slot rest)
  then obtain n ns where names: "names = n # ns" by (cases names) auto
  with Cons.prems have h: "getitem_path [''type'', ''name''] slot = Inr (JStr n)"
    and t: "map (getitem_path [''type'', ''name'']) rest = map (\<lambda>n. Inr (JStr n)) ns"
    by (simp_all del: getitem_path.simps)
  have "types_loop U (slot # rest) acc = types_loop U rest (acc @ [str_title U n])"
    using h by (simp del: getitem_path.simps)
  also have "\<dots> = Inr ((acc @ [str_title U n]) @ map (str_title U) ns)"
    by (rule Cons.IH [OF t])
  finally show ?case by (simp add: names)
qed

text \<open>
  C4, as the specification words it, fails: a letter after the first letter of a word
  is put in lower case, not left as it is. The type name \<open>fIRE\<close> comes out as
  \<open>Fire\<close>, where the glossary's title-case gives \<open>FIRE\<close>.
\<close>

theorem types_rest_unchanged_counterexample:
  "parse_pokemon_types ucd_sample
     \<lparr>pokemon_data = JObj [(lit ''types'', JList [type_entry (lit ''fIRE'')])]\<rparr>
     = Inr [lit ''Fire'']
   \<and> map (spec_title_case ucd_sample) [lit ''fIRE''] = [lit ''FIRE'']
   \<and> parse_pokemon_types ucd_sample
     \<lparr>pokemon_data = JObj [(lit ''types'', JList [type_entry (lit ''fIRE'')])]\<rparr>
     \<noteq> Inr (map (spec_title_case ucd_sample) [lit ''fIRE''])"
  by code_simp

text \<open>
  C4, amended. When \<open>types\<close> is a list of entries \<open>{type: {name}}\<close> with the names
  \<open>names\<close>, the result has the length of the list and its \<open>i\<close>-th element is the
  \<open>i\<close>-th name as \<^verbatim>\<open>str.title()\<close> returns it: the first letter of each word in
  title case and the other letters of the word in lower case. For a name of ASCII
  characters, position by position: a character that follows a letter is lower-cased,
  every other character is upper-cased.
\<close>

theorem types_title_cased:
  assumes "getitem_key ''types'' (pokemon_data self) = Inr (JList slots)"
    and "map (getitem_path [''type'', ''name'']) slots = map (\<lambda>n. Inr (JStr n)) names"
  shows "\<exists>ts. parse_pokemon_types U self = Inr ts \<and> length ts = length slots
           \<and> ts = map (str_title U) names
           \<and> (ascii_ucd U \<longrightarrow>
                (\<forall>i<length slots. (\<forall>c\<in>set (names ! i). c < 128) \<longrightarrow>
                   length (ts ! i) = length (names ! i)
                   \<and> (\<forall>j<length (names ! i). ts ! i ! j =
                         (if 0 < j \<and> ascii_letter (names ! i ! (j - 1))
                          then ascii_lower (names ! i ! j) else ascii_upper (names ! i ! j)))))"
proof -
  have len: "length slots = length names"
    using assms(2) by (metis length_map)
  have run: "parse_pokemon_types U self = Inr (map (str_title U) names)"
    using assms(1) types_loop_eq [OF assms(2), of U "[]"]
    by (simp add: parse_pokemon_types_def)
  show ?thesis
    using run len by (simp add: str_title_ascii_nth length_str_title_ascii)
qed

theorem types_title_cased_witness:
  "\<exists>ts. parse_pokemon_types ucd_sample
     \<lparr>pokemon_data = JObj [(lit ''types'', JList
         [type_entry (lit ''electric''), type_entry (lit ''fIRE''),
          type_entry (lit ''flab'' @ [0xE9] @ lit ''b'' @ [0xE9])])]\<rparr>
     = Inr ts
     \<and> ts = [lit ''Electric'', lit ''Fire'', lit ''Flab'' @ [0xE9] @ lit ''b'' @ [0xE9]]"
proof -
  let ?names = "[lit ''electric'', lit ''fIRE'', lit ''flab'' @ [0xE9] @ lit ''b'' @ [0xE9]]"
  have "map (str_title ucd_sample) ?names
      = [lit ''Electric'', lit ''Fire'', lit ''Flab'' @ [0xE9] @ lit ''b'' @ [0xE9]]"
    by code_simp
  then show ?thesis
    using types_title_cased [where names = ?names and U = ucd_sample
       and slots = "map type_entry ?names"
       and self = "\<lparr>pokemon_data = JObj [(lit ''types'', JList (map type_entry ?names))]\<rparr>"]
    by (simp add: type_entry_def)
qed

text \<open>
  On an ASCII name without capital letters, which is what the service sends, the two
  readings of title-case agree.
\<close>

lemma title_from_spec_title_from:
  "ascii_ucd U \<Longrightarrow> \<forall>c\<in>set rest. c < 128 \<and> \<not> (65 \<le> c \<and> c \<le> 90) \<Longrightarrow>
   title_from U s p i rest = spec_title_from U p rest"
  by (induction rest arbitrary: p i) (auto simp: lower_ucs4_ascii ascii_lower_def)

lemma str_title_spec_title_case:
  "ascii_ucd U \<Longrightarrow> \<forall>c\<in>set s. c < 128 \<and> \<not> (65 \<le> c \<and> c \<le> 90) \<Longrightarrow>
   str_title U s = spec_title_case U s"
  by (simp add: str_title_def spec_title_case_def title_from_spec_title_from)

section \<open>parse\_pokemon\_moves\<close>

lemma moves_body_fetched:
  "getitem_path [''move'', ''url''] move = Inr u \<Longrightarrow>
   moves_body U net k move = (seq (net k u) (move_dict U move), Suc k)"
  by (simp add: moves_body_def del: getitem_path.simps)

lemma move_dict_shaped:
  assumes "move_ref e n u" and "move_detail d s a t"
  shows "move_dict U e d =
           Inr \<lparr>name = n, description = str_capitalize U (str_replace 10 32 s),
                accuracy = a, dmg_type = t\<rparr>"
proof -
  from assms(2) obtain f rest where
    fl: "getitem_key ''flavor_text_entries'' d = Inr (JList (f # rest))"
    and ft: "getitem_key ''flavor_text'' f = Inr (JStr s)"
    and ac: "getitem_key ''accuracy'' d = Inr a"
    and dc: "getitem_path [''damage_class'', ''name''] d = Inr t"
    by (auto simp: move_detail_def simp del: getitem_path.simps
             split: sum.splits json.splits list.splits)
  from assms(1) have nm: "getitem_path [''move'', ''name''] e = Inr n"
    by (simp add: move_ref_def del: getitem_path.simps)
  show ?thesis
    by (simp add: move_dict_def nm fl ft ac dc del: getitem_path.simps)
qed

lemma moves_loop_all_ok:
  "(\<forall>j<length es. moves_body U net (k + j) (es ! j) = (Inr (ms j), Suc (k + j))) \<Longrightarrow>
   moves_loop U net k es acc = (Inr (acc @ map ms [0..<length es]), k + length es)"
proof (induction es arbitrary: k acc ms)
  case Nil
  then show ?case by simp
next
  case (Cons e es)
  from Cons.prems have hd: "moves_body U net k e = (Inr (ms 0), Suc k)"
    by force
  have tl: "\<forall>j<length es. moves_body U net (Suc k + j) (es ! j) = (Inr ((\<lambda>j. ms (Suc j)) j), Suc (Suc k + j))"
    using Cons.prems by force
  have "moves_loop U net k (e # es) acc = moves_loop U net (Suc k) es (acc @ [ms 0])"
    using hd by simp
  also have "\<dots> = (Inr ((acc @ [ms 0]) @ map (\<lambda>j. ms (Suc j)) [0..<length es]), Suc k + length es)"
    by (rule Cons.IH [OF tl])
  finally show ?case
    by (simp add: map_upt_Suc del: upt_Suc)
qed

lemma moves_body_counter:
  "moves_body U net k move = (Inr m, k') \<Longrightarrow> k' = Suc k"
  by (auto simp: moves_body_def simp del: getitem_path.simps split: sum.splits)

lemma moves_loop_Inr_bodies:
  "moves_loop U net k es acc = (Inr mvs, k') \<Longrightarrow>
   \<forall>j<length es. \<exists>m. moves_body U net (k + j) (es ! j) = (Inr m, Suc (k + j))"
proof (induction es arbitrary: k acc)
  case Nil
  then show ?case by simp
next
  case (Cons e es)
  from Cons.prems obtain m where hd: "moves_body U net k e = (Inr m, Suc k)"
    and tl: "moves_loop U net (Suc k) es (acc @ [m]) = (Inr mvs, k')"
    by (auto split: prod.splits sum.splits dest: moves_body_counter)
  from Cons.IH [OF tl] have ih: "\<forall>j<length es. \<exists>m. moves_body U net (Suc k + j) (es ! j) = (Inr m, Suc (Suc k + j))" .
  show ?case
  proof (intro allI impI)
    fix j assume "j < length (e # es)"
    then show "\<exists>m. moves_body U net (k + j) ((e # es) ! j) = (Inr m, Suc (k + j))"
      using hd ih by (cases j) auto
  qed
qed

lemma moves_loop_fails_at:
  "i < length es \<Longrightarrow>
   (\<forall>j<i. \<exists>m. moves_body U net (k + j) (es ! j) = (Inr m, Suc (k + j))) \<Longrightarrow>
   moves_body U net (k + i) (es ! i) = (Inl err, k') \<Longrightarrow>
   moves_loop U net k es acc = (Inl err, k')"
proof (induction es arbitrary: k acc i)
  case Nil
  then show ?case by simp
next
  case (Cons e es)
  show ?case
  proof (cases i)
    case 0
    with Cons.prems show ?thesis by simp
  next
    case (Suc i')
    from Cons.prems(2) Suc obtain m where hd: "moves_body U net k e = (Inr m, Suc k)"
      by force
    have len: "i' < length es" using Cons.prems(1) Suc by simp
    have pre: "\<forall>j<i'. \<exists>m. moves_body U net (Suc k + j) (es ! j) = (Inr m, Suc (Suc k + j))"
      using Cons.prems(2) Suc by force
    have at: "moves_body U net (Suc k + i') (es ! i') = (Inl err, k')"
      using Cons.prems(3) Suc by simp
    from Cons.IH [OF len pre at] hd show ?thesis by simp
  qed
qed


lemma parse_pokemon_moves_total:
  assumes "getitem_key ''moves'' (pokemon_data self) = Inr (JList es)"
    and "\<forall>j<length es. move_ref (es ! j) (ns j) (us j) \<and> net (k + j) (us j) = Inr (ds j)
           \<and> move_detail (ds j) (ss j) (accs j) (ts j)"
  shows "parse_pokemon_moves U net k self =
           (Inr (map (\<lambda>j. \<lparr>name = ns j,
                           description = str_capitalize U (str_replace 10 32 (ss j)),
                           accuracy = accs j, dmg_type = ts j\<rparr>) [0..<length es]),
            k + length es)"
proof -
  have "\<forall>j<length es. moves_body U net (k + j) (es ! j) =
          (Inr \<lparr>name = ns j,
                description = str_capitalize U (str_replace 10 32 (ss j)),
                accuracy = accs j, dmg_type = ts j\<rparr>, Suc (k + j))"
  proof (intro allI impI)
    fix j assume "j < length es"
    with assms(2) have r: "move_ref (es ! j) (ns j) (us j)"
      and n: "net (k + j) (us j) = Inr (ds j)"
      and d: "move_detail (ds j) (ss j) (accs j) (ts j)" by simp_all
    from r have u: "getitem_path [''move'', ''url''] (es ! j) = Inr (us j)"
      by (simp add: move_ref_def del: getitem_path.simps)
    show "moves_body U net (k + j) (es ! j) =
          (Inr \<lparr>name = ns j,
                description = str_capitalize U (str_replace 10 32 (ss j)),
                accuracy = accs j, dmg_type = ts j\<rparr>, Suc (k + j))"
      by (simp add: moves_body_fetched [OF u] n move_dict_shaped [OF r d])
  qed
  from moves_loop_all_ok [OF this, of "[]"] assms(1) show ?thesis
    by (simp add: parse_pokemon_moves_def)
qed



text \<open>
  C6. Under the same shapes, where the accuracy of a detail is any value at all,
  \<^verbatim>\<open>moves()\<close> returns its records and the accuracy of the \<open>i\<close>-th record is the
  value of the \<open>accuracy\<close> field of the \<open>i\<close>-th detail; a null accuracy is handed on
  as it is and raises nothing.
\<close>

theorem moves_accuracy_verbatim:
  assumes "getitem_key ''moves'' (pokemon_data self) = Inr (JList es)"
    and "\<forall>j<length es. move_ref (es ! j) (ns j) (us j) \<and> net (k + j) (us j) = Inr (ds j)
           \<and> move_detail (ds j) (ss j) (accs j) (ts j)"
    and "i < length es"
  shows "\<exists>mvs. parse_pokemon_moves U net k self = (Inr mvs, k + length es)
           \<and> length mvs = length es
           \<and> accuracy (mvs ! i) = accs i
           \<and> getitem_key ''accuracy'' (ds i) = Inr (accuracy (mvs ! i))"
proof -
  from assms(2,3) have "move_detail (ds i) (ss i) (accs i) (ts i)" by simp
  then have "getitem_key ''accuracy'' (ds i) = Inr (accs i)"
    by (simp add: move_detail_def del: getitem_path.simps)
  with parse_pokemon_moves_total [OF assms(1,2), of U] assms(3) show ?thesis
    by simp
qed

theorem moves_accuracy_verbatim_witness:
  "\<exists>mvs. parse_pokemon_moves ucd_sample example_net 0
            \<lparr>pokemon_data = JObj [(lit ''moves'', JList example_moves)]\<rparr> = (Inr mvs, 3)
         \<and> accuracy (mvs ! 0) = JInt 100
         \<and> accuracy (mvs ! 1) = JNull
         \<and> getitem_key ''accuracy'' swift_detail = Inr JNull"
proof -
  let ?doc = "\<lparr>pokemon_data = JObj [(lit ''moves'', JList example_moves)]\<rparr>"
  let ?ns = "\<lambda>j. [JStr (lit ''tackle''), JStr (lit ''swift''), JStr (lit ''strasse'')] ! j"
  let ?us = "\<lambda>j. [JStr (lit ''move/33''), JStr (lit ''move/129''), JStr (lit ''move/7'')] ! j"
  let ?ds = "\<lambda>j. [tackle_detail, swift_detail, strasse_detail] ! j"
  let ?ss = "\<lambda>j. [lit ''tackle'' @ [10] @ lit ''attack'', lit ''STAR-shaped rays'',
                    [0xDF] @ lit ''TRASSE'' @ [0xC9]] ! j"
  let ?accs = "\<lambda>j. [JInt 100, JNull, JInt 95] ! j"
  let ?ts = "\<lambda>j. [JStr (lit ''physical''), JStr (lit ''special''), JStr (lit ''status'')] ! j"
  have doc: "getitem_key ''moves'' (pokemon_data ?doc) = Inr (JList example_moves)"
    by simp
  have shape: "\<forall>j<length example_moves. move_ref (example_moves ! j) (?ns j) (?us j)
      \<and> example_net (0 + j) (?us j) = Inr (?ds j)
      \<and> move_detail (?ds j) (?ss j) (?accs j) (?ts j)"
    by (simp add: example_moves_def move_entry_def move_ref_def move_detail_def example_net_def
          tackle_detail_def swift_detail_def strasse_detail_def less_Suc_eq)
  have len: "length example_moves = 3" by (simp add: example_moves_def)
  from moves_accuracy_verbatim [OF doc shape, of 0 ucd_sample]
    moves_accuracy_verbatim [OF doc shape, of 1 ucd_sample]
  show ?thesis
    using len by auto
qed

text \<open>
  The field has to be there: a detail document without the key \<open>accuracy\<close> ends the
  loop body with the exception of the subscript.
\<close>

lemma move_dict_without_accuracy:
  assumes "move_ref e n u"
    and "getitem_key ''flavor_text_entries'' d = Inr (JList (f # rest))"
    and "getitem_key ''flavor_text'' f = Inr (JStr s)"
    and "getitem_key ''accuracy'' d = Inl err"
  shows "move_dict U e d = Inl err"
  using assms by (simp add: move_dict_def move_ref_def del: getitem_path.simps)

lemma moves_body_empty_flavor_text:
  assumes "move_ref e n u" and "net k u = Inr d"
    and "getitem_key ''flavor_text_entries'' d = Inr (JList [])"
  shows "moves_body U net k e = (Inl IndexError, Suc k)"
proof -
  from assms(1) have u: "getitem_path [''move'', ''url''] e = Inr u"
    and n: "getitem_path [''move'', ''name''] e = Inr n"
    by (simp_all add: move_ref_def del: getitem_path.simps)
  show ?thesis
    by (simp add: moves_body_fetched [OF u] assms(2,3) move_dict_def n del: getitem_path.simps)
qed

text \<open>
  C8. When the detail fetched for the \<open>i\<close>-th move entry has an empty list of
  flavor-text entries, \<^verbatim>\<open>moves()\<close> never returns a list: it ends with an exception.
  When the entries before it went through, the exception is the IndexError of
  \<^verbatim>\<open>[0]\<close>, raised after the \<open>i\<close>-th request.
\<close>

theorem moves_empty_flavor_text:
  assumes "getitem_key ''moves'' (pokemon_data self) = Inr (JList es)"
    and "i < length es"
    and "move_ref (es ! i) n u"
    and "net (k + i) u = Inr d"
    and "getitem_key ''flavor_text_entries'' d = Inr (JList [])"
  shows "(\<exists>err k'. parse_pokemon_moves U net k self = (Inl err, k'))
       \<and> ((\<forall>j<i. \<exists>m. moves_body U net (k + j) (es ! j) = (Inr m, Suc (k + j))) \<longrightarrow>
            parse_pokemon_moves U net k self = (Inl IndexError, Suc (k + i)))"
proof -
  have run: "parse_pokemon_moves U net k self = moves_loop U net k es []"
    using assms(1) by (simp add: parse_pokemon_moves_def)
  have at: "moves_body U net (k + i) (es ! i) = (Inl IndexError, Suc (k + i))"
    by (rule moves_body_empty_flavor_text [where net = net and k = "k + i", OF assms(3,4,5)])
  have never: "\<exists>err k'. moves_loop U net k es [] = (Inl err, k')"
  proof (cases "moves_loop U net k es []")
    case (Pair r k')
    show ?thesis
    proof (cases r)
      case (Inl err)
      with Pair show ?thesis by simp
    next
      case (Inr mvs)
      with Pair have "moves_loop U net k es [] = (Inr mvs, k')" by simp
      from moves_loop_Inr_bodies [OF this] assms(2)
      obtain m where "moves_body U net (k + i) (es ! i) = (Inr m, Suc (k + i))" by blast
      with at show ?thesis by simp
    qed
  qed
  have first: "(\<forall>j<i. \<exists>m. moves_body U net (k + j) (es ! j) = (Inr m, Suc (k + j))) \<longrightarrow>
      moves_loop U net k es [] = (Inl IndexError, Suc (k + i))"
    using moves_loop_fails_at [OF assms(2) _ at] by blast
  show ?thesis using never first by (simp add: run)
qed

theorem moves_empty_flavor_text_witness:
  "parse_pokemon_moves ucd_sample example_net 0 \<lparr>pokemon_data = JObj [(lit ''moves'', JList blank_moves)]\<rparr>
     = (Inl IndexError, 2)"
proof -
  let ?doc = "\<lparr>pokemon_data = JObj [(lit ''moves'', JList blank_moves)]\<rparr>"
  have doc: "getitem_key ''moves'' (pokemon_data ?doc) = Inr (JList blank_moves)"
    by simp
  have len: "1 < length blank_moves" by (simp add: blank_moves_def)
  have ref: "move_ref (blank_moves ! 1) (JStr (lit ''glitch'')) (JStr (lit ''move/0''))"
    by (simp add: blank_moves_def move_entry_def move_ref_def)
  have net: "example_net (0 + 1) (JStr (lit ''move/0'')) = Inr blank_detail"
    by (simp add: example_net_def)
  have blank: "getitem_key ''flavor_text_entries'' blank_detail = Inr (JList [])"
    by (simp add: blank_detail_def)
  have before: "\<forall>j<1. \<exists>m. moves_body ucd_sample example_net (0 + j) (blank_moves ! j) = (Inr m, Suc (0 + j))"
    by (simp add: blank_moves_def move_entry_def moves_body_def example_net_def
          tackle_detail_def move_dict_def)
  from moves_empty_flavor_text [where net = example_net and k = 0 and i = 1 and U = ucd_sample,
      OF doc len ref net blank] before
  show ?thesis
    by simp
qed

section \<open>parse\_pokemon\_stats\<close>

lemma key_eq_JStr: "key_eq (JStr n) k = (k = JStr n)"
  by (cases k) (auto simp: key_eq_def)

lemma key_eq_JStr_right: "key_eq k (JStr n) = (k = JStr n)"
  by (cases k) (auto simp: key_eq_def)

lemma dict_get_dict_store:
  "dict_get (dict_store k v d) k' = (if key_eq k' k then Some v else dict_get d k')"
  by (induction d) (auto simp: key_eq_def)

lemma keys_dict_store_JStr:
  "map fst (dict_store (JStr n) v d) =
     (if JStr n \<in> set (map fst d) then map fst d else map fst d @ [JStr n])"
  by (induction d) (force simp: key_eq_JStr)+

lemma stats_loop_eq:
  "map (getitem_path [''stat'', ''name'']) es = map (\<lambda>n. Inr (JStr n)) names \<Longrightarrow>
   map (getitem_key ''base_stat'') es = map Inr vals \<Longrightarrow>
   stats_loop es d = Inr (fold (\<lambda>(n, v). dict_store (JStr n) v) (zip names vals) d)"
proof (induction es arbitrary: d names vals)
  case Nil
  then show ?case by simp
next
  case (Cons e es)
  from Cons.prems(1) obtain n ns where names: "names = n # ns" by (cases names) auto
  from Cons.prems(2) obtain v vs where vals: "vals = v # vs" by (cases vals) auto
  from Cons.prems names vals
  have h: "getitem_path [''stat'', ''name''] e = Inr (JStr n)"
    and b: "getitem_key ''base_stat'' e = Inr v"
    and t1: "map (getitem_path [''stat'', ''name'']) es = map (\<lambda>n. Inr (JStr n)) ns"
    and t2: "map (getitem_key ''base_stat'') es = map Inr vs"
    by (simp_all del: getitem_path.simps)
  have "stats_loop (e # es) d = stats_loop es (dict_store (JStr n) v d)"
    using h b by (simp add: dict_setitem_def del: getitem_path.simps)
  also note Cons.IH [OF t1 t2]
  finally show ?case by (simp add: names vals)
qed

lemma set_first_occurrences: "set (first_occurrences xs) = set xs"
  by (induction xs) auto

lemma distinct_first_occurrences: "distinct (first_occurrences xs)"
  by (induction xs) auto

lemma filter_map_JStr_neq:
  "filter P (map JStr (filter (\<lambda>y. y \<noteq> n) xs)) =
     filter (\<lambda>k. P k \<and> k \<noteq> JStr n) (map JStr xs)"
  by (induction xs) auto

lemma keys_fold_store:
  "length names = length vals \<Longrightarrow>
   map fst (fold (\<lambda>(n, v). dict_store (JStr n) v) (zip names vals) d) =
     map fst d @ filter (\<lambda>k. k \<notin> set (map fst d)) (map JStr (first_occurrences names))"
proof (induction names arbitrary: vals d)
  case Nil
  then show ?case by simp
next
  case (Cons n ns)
  then obtain v vs where vals: "vals = v # vs" by (cases vals) auto
  let ?d = "dict_store (JStr n) v d"
  have len: "length ns = length vs" using Cons.prems vals by simp
  have ih: "map fst (fold (\<lambda>(n, v). dict_store (JStr n) v) (zip ns vs) ?d) =
     map fst ?d @ filter (\<lambda>k. k \<notin> set (map fst ?d)) (map JStr (first_occurrences ns))"
    by (rule Cons.IH [OF len])
  have flt: "filter (\<lambda>k. k \<notin> set (map fst d)) (map JStr (filter (\<lambda>y. y \<noteq> n) (first_occurrences ns)))
      = filter (\<lambda>k. k \<notin> set (map fst d) \<and> k \<noteq> JStr n) (map JStr (first_occurrences ns))"
    by (rule filter_map_JStr_neq)
  show ?case
  proof (cases "JStr n \<in> set (map fst d)")
    case True
    then have k: "map fst ?d = map fst d" by (simp add: keys_dict_store_JStr)
    have "filter (\<lambda>k. k \<notin> set (map fst d) \<and> k \<noteq> JStr n) (map JStr (first_occurrences ns))
        = filter (\<lambda>k. k \<notin> set (map fst d)) (map JStr (first_occurrences ns))"
      using True by (intro filter_cong) auto
    with ih k flt True show ?thesis by (simp add: vals)
  next
    case False
    then have k: "map fst ?d = map fst d @ [JStr n]" by (simp add: keys_dict_store_JStr)
    have "filter (\<lambda>k. k \<notin> set (map fst d @ [JStr n])) (map JStr (first_occurrences ns))
        = filter (\<lambda>k. k \<notin> set (map fst d) \<and> k \<noteq> JStr n) (map JStr (first_occurrences ns))"
      by (intro filter_cong) auto
    with ih k flt False show ?thesis by (simp add: vals)
  qed
qed

lemma dict_get_fold_store:
  "length names = length vals \<Longrightarrow>
   dict_get (fold (\<lambda>(n, v). dict_store (JStr n) v) (zip names vals) d) (JStr m) =
     (case map_of (rev (zip names vals)) m of
        Some v \<Rightarrow> Some v
      | None \<Rightarrow> dict_get d (JStr m))"
proof (induction names arbitrary: vals d)
  case Nil
  then show ?case by simp
next
  case (Cons n ns)
  then obtain v vs where vals: "vals = v # vs" by (cases vals) auto
  have len: "length ns = length vs" using Cons.prems vals by simp
  show ?case
    by (simp add: vals Cons.IH [OF len] dict_get_dict_store key_eq_JStr map_add_def
          split: option.splits)
qed

lemma map_of_rev_last_occurrence:
  "length names = length vals \<Longrightarrow> j < length names \<Longrightarrow>
   (\<forall>j'<length names. j < j' \<longrightarrow> names ! j' \<noteq> names ! j) \<Longrightarrow>
   map_of (rev (zip names vals)) (names ! j) = Some (vals ! j)"
proof (induction names arbitrary: vals j)
  case Nil
  then show ?case by simp
next
  case (Cons n ns)
  then obtain v vs where vals: "vals = v # vs" by (cases vals) auto
  have len: "length ns = length vs" using Cons.prems vals by simp
  show ?case
  proof (cases j)
    case 0
    have "n \<notin> set ns"
    proof
      assume "n \<in> set ns"
      then obtain i where "i < length ns" "ns ! i = n" by (auto simp: in_set_conv_nth)
      with Cons.prems(3) [rule_format, of "Suc i"] 0 show False by simp
    qed
    then have "map_of (rev (zip ns vs)) n = None"
      by (auto simp: map_of_eq_None_iff dest: set_zip_leftD)
    with 0 show ?thesis by (simp add: vals map_add_def)
  next
    case (Suc i)
    have i: "i < length ns" using Cons.prems(2) Suc by simp
    have "\<forall>j'<length ns. i < j' \<longrightarrow> ns ! j' \<noteq> ns ! i"
      using Cons.prems(3) Suc by force
    from Cons.IH [OF len i this] Suc show ?thesis
      by (simp add: vals map_add_def)
  qed
qed

lemma dict_get_None:
  "\<forall>k'\<in>set (map fst d). \<exists>n. k' = JStr n \<Longrightarrow> k \<notin> set (map fst d) \<Longrightarrow> dict_get d k = None"
  by (induction d) (auto simp: key_eq_JStr_right)

lemma parse_pokemon_stats_fold:
  assumes "getitem_key ''stats'' (pokemon_data self) = Inr (JList es)"
    and "map (getitem_path [''stat'', ''name'']) es = map (\<lambda>n. Inr (JStr n)) names"
    and "map (getitem_key ''base_stat'') es = map Inr vals"
  shows "parse_pokemon_stats self =
           Inr (fold (\<lambda>(n, v). dict_store (JStr n) v) (zip names vals) [])"
    and "length names = length vals"
proof -
  show "length names = length vals"
    using assms(2,3) by (metis length_map)
  show "parse_pokemon_stats self =
          Inr (fold (\<lambda>(n, v). dict_store (JStr n) v) (zip names vals) [])"
    using assms(1) stats_loop_eq [OF assms(2,3), of "[]"]
    by (simp add: parse_pokemon_stats_def)
qed

lemma dict_get_fold_store_last:
  assumes "length names = length vals" and "j < length names"
    and "\<forall>j'<length names. j < j' \<longrightarrow> names ! j' \<noteq> names ! j"
  shows "dict_get (fold (\<lambda>(n, v). dict_store (JStr n) v) (zip names vals) []) (JStr (names ! j))
           = Some (vals ! j)"
  by (simp add: dict_get_fold_store [OF assms(1)] map_of_rev_last_occurrence [OF assms])

text \<open>
  C3. When \<open>stats\<close> is a list of entries carrying the stat names \<open>names\<close> and the
  base stats \<open>vals\<close>, \<^verbatim>\<open>stats()\<close> returns a dict in which every name has the base
  stat of its last occurrence in the list, and whose keys are the names of the list, each
  once, and nothing else: looking up any other key finds nothing.
\<close>

theorem stats_last_write_wins:
  assumes "getitem_key ''stats'' (pokemon_data self) = Inr (JList es)"
    and "map (getitem_path [''stat'', ''name'']) es = map (\<lambda>n. Inr (JStr n)) names"
    and "map (getitem_key ''base_stat'') es = map Inr vals"
  shows "\<exists>d. parse_pokemon_stats self = Inr d
           \<and> (\<forall>j<length names. (\<forall>j'<length names. j < j' \<longrightarrow> names ! j' \<noteq> names ! j) \<longrightarrow>
                  dict_get d (JStr (names ! j)) = Some (vals ! j))
           \<and> set (map fst d) = JStr ` set names
           \<and> distinct (map fst d)
           \<and> (\<forall>k. k \<notin> JStr ` set names \<longrightarrow> dict_get d k = None)"
proof -
  let ?d = "fold (\<lambda>(n, v). dict_store (JStr n) v) (zip names vals) []"
  note run = parse_pokemon_stats_fold(1) [OF assms]
  note len = parse_pokemon_stats_fold(2) [OF assms]
  have keys: "map fst ?d = map JStr (first_occurrences names)"
    using keys_fold_store [OF len, of "[]"] by simp
  have vals: "\<forall>j<length names. (\<forall>j'<length names. j < j' \<longrightarrow> names ! j' \<noteq> names ! j) \<longrightarrow>
                  dict_get ?d (JStr (names ! j)) = Some (vals ! j)"
    using dict_get_fold_store_last [OF len] by blast
  define d where "d = ?d"
  note run = run [folded d_def] and keys = keys [folded d_def] and vals = vals [folded d_def]
  have s: "set (map fst d) = JStr ` set names"
    by (simp only: keys set_map set_first_occurrences)
  have dist: "distinct (map fst d)"
    by (simp only: keys) (simp add: distinct_map distinct_first_occurrences inj_on_def)
  have none: "\<forall>k. k \<notin> JStr ` set names \<longrightarrow> dict_get d k = None"
  proof (intro allI impI)
    fix k assume "k \<notin> JStr ` set names"
    with s have "k \<notin> set (map fst d)" by simp
    moreover have "\<forall>k'\<in>set (map fst d). \<exists>n. k' = JStr n" using s by auto
    ultimately show "dict_get d k = None" by (rule dict_get_None [rotated])
  qed
  show ?thesis using run vals s dist none by blast
qed

text \<open>
  C10. Under the same shapes, the keys of the returned dict stand in the order in which
  the names first occur in the list, while the value of a key is the base stat of its
  last occurrence: a duplicate changes the value of a key and never its place.
\<close>

theorem stats_key_order:
  assumes "getitem_key ''stats'' (pokemon_data self) = Inr (JList es)"
    and "map (getitem_path [''stat'', ''name'']) es = map (\<lambda>n. Inr (JStr n)) names"
    and "map (getitem_key ''base_stat'') es = map Inr vals"
  shows "\<exists>d. parse_pokemon_stats self = Inr d
           \<and> map fst d = map JStr (first_occurrences names)
           \<and> (\<forall>j<length names. (\<forall>j'<length names. j < j' \<longrightarrow> names ! j' \<noteq> names ! j) \<longrightarrow>
                  dict_get d (JStr (names ! j)) = Some (vals ! j))"
proof -
  let ?d = "fold (\<lambda>(n, v). dict_store (JStr n) v) (zip names vals) []"
  note len = parse_pokemon_stats_fold(2) [OF assms]
  have run: "parse_pokemon_stats self = Inr ?d"
    by (rule parse_pokemon_stats_fold(1) [OF assms])
  have keys: "map fst ?d = map JStr (first_occurrences names)"
    using keys_fold_store [OF len, of "[]"] by simp
  have last: "\<forall>j<length names. (\<forall>j'<length names. j < j' \<longrightarrow> names ! j' \<noteq> names ! j) \<longrightarrow>
                  dict_get ?d (JStr (names ! j)) = Some (vals ! j)"
    using dict_get_fold_store_last [OF len] by blast
  from run keys last show ?thesis by blast
qed


text \<open>
  The entries hp 35, attack 55, hp 40 give \<open>{hp: 40, attack: 55}\<close>.
\<close>

theorem stats_last_write_wins_witness:
  "\<exists>d. parse_pokemon_stats \<lparr>pokemon_data = JObj [(lit ''stats'', JList example_stats)]\<rparr> = Inr d
       \<and> dict_get d (JStr (lit ''hp'')) = Some (JInt 40)
       \<and> dict_get d (JStr (lit ''attack'')) = Some (JInt 55)
       \<and> set (map fst d) = {JStr (lit ''hp''), JStr (lit ''attack'')}
       \<and> dict_get d (JStr (lit ''speed'')) = None"
proof -
  let ?self = "\<lparr>pokemon_data = JObj [(lit ''stats'', JList example_stats)]\<rparr>"
  let ?names = "[lit ''hp'', lit ''attack'', lit ''hp'']"
  let ?vals = "[JInt 35, JInt 55, JInt 40]"
  have doc: "getitem_key ''stats'' (pokemon_data ?self) = Inr (JList example_stats)"
    by simp
  have names: "map (getitem_path [''stat'', ''name'']) example_stats = map (\<lambda>n. Inr (JStr n)) ?names"
    by (simp add: example_stats_def stat_entry_def)
  have vals: "map (getitem_key ''base_stat'') example_stats = map Inr ?vals"
    by (simp add: example_stats_def stat_entry_def)
  from stats_last_write_wins [OF doc names vals] obtain d where
    run: "parse_pokemon_stats ?self = Inr d"
    and last: "\<forall>j<length ?names. (\<forall>j'<length ?names. j < j' \<longrightarrow> ?names ! j' \<noteq> ?names ! j) \<longrightarrow>
                  dict_get d (JStr (?names ! j)) = Some (?vals ! j)"
    and keys: "set (map fst d) = JStr ` set ?names"
    and none: "\<forall>k. k \<notin> JStr ` set ?names \<longrightarrow> dict_get d k = None"
    by blast
  have hp: "dict_get d (JStr (lit ''hp'')) = Some (JInt 40)"
    using last [rule_format, of 2] by simp
  have "\<forall>j'<length ?names. 1 < j' \<longrightarrow> ?names ! j' \<noteq> ?names ! 1"
    by (auto simp: less_Suc_eq)
  then have attack: "dict_get d (JStr (lit ''attack'')) = Some (JInt 55)"
    using last [rule_format, of 1] by simp
  have speed: "dict_get d (JStr (lit ''speed'')) = None"
    using none [rule_format, of "JStr (lit ''speed'')"] by simp
  show ?thesis using run hp attack keys speed by auto
qed

theorem stats_key_order_witness:
  "\<exists>d. parse_pokemon_stats \<lparr>pokemon_data = JObj [(lit ''stats'', JList example_stats)]\<rparr> = Inr d
       \<and> map fst d = [JStr (lit ''hp''), JStr (lit ''attack'')]
       \<and> dict_get d (JStr (lit ''hp'')) = Some (JInt 40)"
proof -
  let ?self = "\<lparr>pokemon_data = JObj [(lit ''stats'', JList example_stats)]\<rparr>"
  let ?names = "[lit ''hp'', lit ''attack'', lit ''hp'']"
  let ?vals = "[JInt 35, JInt 55, JInt 40]"
  have doc: "getitem_key ''stats'' (pokemon_data ?self) = Inr (JList example_stats)"
    by simp
  have names: "map (getitem_path [''stat'', ''name'']) example_stats = map (\<lambda>n. Inr (JStr n)) ?names"
    by (simp add: example_stats_def stat_entry_def)
  have vals: "map (getitem_key ''base_stat'') example_stats = map Inr ?vals"
    by (simp add: example_stats_def stat_entry_def)
  from stats_key_order [OF doc names vals] obtain d where
    run: "parse_pokemon_stats ?self = Inr d"
    and keys: "map fst d = map JStr (first_occurrences ?names)"
    and last: "\<forall>j<length ?names. (\<forall>j'<length ?names. j < j' \<longrightarrow> ?names ! j' \<noteq> ?names ! j) \<longrightarrow>
                  dict_get d (JStr (?names ! j)) = Some (?vals ! j)"
    by blast
  have hp: "dict_get d (JStr (lit ''hp'')) = Some (JInt 40)"
    using last [rule_format, of 2] by simp
  have "map fst d = [JStr (lit ''hp''), JStr (lit ''attack'')]"
    using keys by simp
  with run hp show ?thesis by simp
qed

section \<open>PokemonDataFetcher and Pokemon: the request\<close>

lemma request_url_eq_iff:
  "request_url U a = request_url U b \<longleftrightarrow> str_lower U a = str_lower U b"
  by (simp add: request_url_def)




text \<open>
  On ASCII characters, being case variants is a matter of arithmetic: equal, or a
  capital letter and the code point 32 above it.
\<close>

lemma case_variant_ascii:
  assumes "ascii_ucd U" and "c < 128" and "d < 128"
  shows "case_variant U c d \<longleftrightarrow>
           (c = d \<or> (65 \<le> c \<and> c \<le> 90 \<and> d = c + 32) \<or> (65 \<le> d \<and> d \<le> 90 \<and> c = d + 32))"
proof -
  from assms have "lower_full U c = [ascii_lower c]" and "lower_full U d = [ascii_lower d]"
    by (simp_all add: ascii_ucd_def)
  then show ?thesis
    by (auto simp: case_variant_def ascii_lower_def)
qed





section \<open>The extractors leave the document alone\<close>

lemma extends_iff: "extends s t \<longleftrightarrow> (\<exists>ext. t = s @ ext)"
proof
  assume "extends s t"
  then have "t = s @ drop (length s) t"
    by (metis append_take_drop_id extends_def)
  then show "\<exists>ext. t = s @ ext" ..
next
  assume "\<exists>ext. t = s @ ext"
  then show "extends s t" by (auto simp: extends_def)
qed

lemma extends_refl: "extends s s"
  by (simp add: extends_def)

lemma extends_trans: "extends s t \<Longrightarrow> extends t u \<Longrightarrow> extends s u"
  by (auto simp: extends_iff)

lemma extends_snoc: "extends s t \<Longrightarrow> extends s (t @ ext)"
  by (auto simp: extends_iff)

lemma extends_update: "extends s t \<Longrightarrow> length s \<le> a \<Longrightarrow> extends s (t[a := ob])"
  by (simp add: extends_def)

lemma extends_obj_at: "extends s t \<Longrightarrow> obj_at s a = Some ob \<Longrightarrow> obj_at t a = Some ob"
  by (auto simp: extends_iff obj_at_def nth_append split: if_splits)

lemma extends_load:
  "load j s = (v, s1) \<Longrightarrow> extends s s1"
  "load_list xs s = (vs, s2) \<Longrightarrow> extends s s2"
  "load_fields kvs s = (fs, s3) \<Longrightarrow> extends s s3"
proof (induction j s and xs s and kvs s arbitrary: v s1 and vs s2 and fs s3
       rule: load_load_list_load_fields.induct)
  case (5 xs s)
  obtain ws t where l: "load_list xs s = (ws, t)" by (cases "load_list xs s")
  with 5 have "extends s t" and "s1 = t @ [OList ws]"
    by (auto simp: alloc_def)
  then show ?case by (simp add: extends_snoc)
next
  case (6 kvs s)
  obtain ws t where l: "load_fields kvs s = (ws, t)" by (cases "load_fields kvs s")
  with 6 have "extends s t" and "s1 = t @ [ODict ws]"
    by (auto simp: alloc_def)
  then show ?case by (simp add: extends_snoc)
next
  case (8 x xs s)
  obtain w t where l: "load x s = (w, t)" by (cases "load x s")
  obtain ws t' where l': "load_list xs t = (ws, t')" by (cases "load_list xs t")
  from 8 l l' have "extends s t" and "extends t t'" and "s2 = t'"
    by auto
  then show ?case by (blast intro: extends_trans)
next
  case (10 kv kvs s)
  obtain w t where l: "load (snd kv) s = (w, t)" by (cases "load (snd kv) s")
  obtain ws t' where l': "load_fields kvs t = (ws, t')" by (cases "load_fields kvs t")
  from 10 l l' have "extends s t" and "extends t t'" and "s3 = t'"
    by auto
  then show ?case by (blast intro: extends_trans)
qed (simp_all add: extends_refl)

lemma extends_st_append: "extends s t \<Longrightarrow> length s \<le> a \<Longrightarrow> extends s (st_append a v t)"
  by (simp add: st_append_def extends_update split: option.splits obj.splits)

lemma extends_st_setitem:
  "extends s t \<Longrightarrow> length s \<le> a \<Longrightarrow> st_setitem a k v t = Inr t' \<Longrightarrow> extends s t'"
  by (auto simp: st_setitem_def extends_update split: if_splits option.splits obj.splits)


lemma extends_st_types_loop:
  "extends s t \<Longrightarrow> length s \<le> a \<Longrightarrow> extends s (snd (st_types_loop U a slots t))"
proof (induction slots arbitrary: t)
  case Nil
  then show ?case by simp
next
  case (Cons slot rest)
  show ?case
  proof (cases "seq (st_getitem_path [''type'', ''name''] slot t) (st_title U)")
    case (Inl err)
    with Cons.prems show ?thesis by (simp del: st_getitem_path.simps)
  next
    case (Inr x)
    have "extends s (st_append a (VStr x) t)"
      using Cons.prems by (rule extends_st_append)
    from Cons.IH [OF this Cons.prems(2)] Inr show ?thesis
      by (simp del: st_getitem_path.simps)
  qed
qed

lemma extends_st_abilities_loop:
  "extends s t \<Longrightarrow> length s \<le> a \<Longrightarrow> extends s (snd (st_abilities_loop U a entries t))"
proof (induction entries arbitrary: t)
  case Nil
  then show ?case by simp
next
  case (Cons ability rest)
  show ?case
  proof (cases "seq (st_getitem_path [''ability'', ''name''] ability t) (st_title U)")
    case (Inl err)
    with Cons.prems show ?thesis by (simp del: st_getitem_path.simps)
  next
    case (Inr x)
    have "extends s (st_append a (VStr x) t)"
      using Cons.prems by (rule extends_st_append)
    from Cons.IH [OF this Cons.prems(2)] Inr show ?thesis
      by (simp del: st_getitem_path.simps)
  qed
qed

lemma seq_Inr_iff: "seq r f = Inr y \<longleftrightarrow> (\<exists>x. r = Inr x \<and> f x = Inr y)"
  by (cases r) auto

lemma extends_st_stats_loop:
  "extends s t \<Longrightarrow> length s \<le> a \<Longrightarrow> extends s (snd (st_stats_loop a entries t))"
proof (induction entries arbitrary: t)
  case Nil
  then show ?case by simp
next
  case (Cons e entries)
  show ?case
  proof (cases "seq (st_getitem_key ''base_stat'' e t) (\<lambda>b.
           seq (st_getitem_path [''stat'', ''name''] e t) (\<lambda>n. st_setitem a n b t))")
    case (Inl err)
    with Cons.prems show ?thesis by (simp del: st_getitem_path.simps)
  next
    case (Inr t')
    then obtain b n where "st_setitem a n b t = Inr t'"
      unfolding seq_Inr_iff by blast
    with Cons.prems have "extends s t'" by (blast intro: extends_st_setitem)
    from Cons.IH [OF this Cons.prems(2)] Inr show ?thesis
      by (simp del: st_getitem_path.simps)
  qed
qed

lemma extends_st_parse_pokemon_types: "extends s (snd (st_parse_pokemon_types U data s))"
proof -
  have e: "extends s (s @ [OList []])" by (simp add: extends_refl extends_snoc)
  show ?thesis
    using e extends_st_types_loop [OF e order_refl]
    by (simp add: st_parse_pokemon_types_def alloc_def split: sum.splits)
qed

lemma extends_st_parse_pokemon_abilities: "extends s (snd (st_parse_pokemon_abilities U data s))"
proof -
  have e: "extends s (s @ [OList []])" by (simp add: extends_refl extends_snoc)
  show ?thesis
    using e extends_st_abilities_loop [OF e order_refl]
    by (simp add: st_parse_pokemon_abilities_def alloc_def split: sum.splits)
qed

lemma extends_st_parse_pokemon_stats: "extends s (snd (st_parse_pokemon_stats data s))"
proof -
  have e: "extends s (s @ [ODict []])" by (simp add: extends_refl extends_snoc)
  show ?thesis
    using e extends_st_stats_loop [OF e order_refl]
    by (simp add: st_parse_pokemon_stats_def alloc_def split: sum.splits)
qed

lemma extends_st_parse_pokemon_game_version:
  "extends s (snd (st_parse_pokemon_game_version data s))"
  by (simp add: st_parse_pokemon_game_version_def extends_refl)

lemma extends_st_request: "extends s t \<Longrightarrow> extends s (snd (st_request net k u t))"
proof -
  assume e: "extends s t"
  show ?thesis
  proof (cases "st_read (length t) t u")
    case None
    with e show ?thesis by (simp add: st_request_def)
  next
    case (Some locator)
    show ?thesis
    proof (cases "net k locator")
      case (Inl err)
      with Some e show ?thesis by (simp add: st_request_def)
    next
      case (Inr j)
      obtain v t' where l: "load j t = (v, t')" by (cases "load j t")
      from extends_load(1) [OF l] e have "extends s t'" by (blast intro: extends_trans)
      with Some Inr l show ?thesis by (simp add: st_request_def)
    qed
  qed
qed

lemma extends_st_move_dict: "extends s t \<Longrightarrow> extends s (snd (st_move_dict U move d t))"
  unfolding st_move_dict_def
  by (simp add: alloc_def extends_snoc split: sum.split del: st_getitem_path.simps)


lemma extends_st_moves_body:
  assumes e: "extends s t" and a: "length s \<le> a"
  shows "extends s (snd (snd (st_moves_body U net k a move t)))"
proof (cases "st_getitem_path [''move'', ''url''] move t")
  case (Inl err)
  with e show ?thesis by (simp add: st_moves_body_def del: st_getitem_path.simps)
next
  case (Inr u)
  obtain r t1 where req: "st_request net k u t = (r, t1)" by (cases "st_request net k u t")
  have e1: "extends s t1" using extends_st_request [OF e, of net k u] req by simp
  show ?thesis
  proof (cases r)
    case (Inl err)
    with Inr req e1 show ?thesis by (simp add: st_moves_body_def del: st_getitem_path.simps)
  next
    case d: (Inr move_data)
    obtain r2 t2 where md: "st_move_dict U move move_data t1 = (r2, t2)"
      by (cases "st_move_dict U move move_data t1")
    have e2: "extends s t2" using extends_st_move_dict [OF e1, of U move move_data] md by simp
    show ?thesis
      using Inr req d md e2 a
      by (cases r2) (simp_all add: st_moves_body_def extends_st_append del: st_getitem_path.simps)
  qed
qed

lemma extends_st_moves_loop:
  "extends s t \<Longrightarrow> length s \<le> a \<Longrightarrow>
   extends s (snd (snd (st_moves_loop U net k a entries t)))"
proof (induction entries arbitrary: k t)
  case Nil
  then show ?case by simp
next
  case (Cons e entries)
  obtain r k' t' where b: "st_moves_body U net k a e t = (r, k', t')"
    by (cases "st_moves_body U net k a e t") auto
  have e': "extends s t'"
    using extends_st_moves_body [OF Cons.prems, of U net k e] b by simp
  show ?case
    using b e' Cons.IH [OF e' Cons.prems(2)] by (cases r) simp_all
qed

lemma extends_st_parse_pokemon_moves:
  "extends s (snd (snd (st_parse_pokemon_moves U net k data s)))"
proof -
  have e: "extends s (s @ [OList []])" by (simp add: extends_refl extends_snoc)
  show ?thesis
    using e extends_st_moves_loop [OF e order_refl]
    by (simp add: st_parse_pokemon_moves_def alloc_def split: sum.splits)
qed

lemma those_Some_all: "those xs = Some ys \<Longrightarrow> x \<in> set xs \<Longrightarrow> \<exists>y. x = Some y"
  by (induction xs arbitrary: ys) (auto split: option.splits)

lemma those_fields_Some_all:
  "those_fields xs = Some ys \<Longrightarrow> (k, r) \<in> set xs \<Longrightarrow> \<exists>j. r = Some j"
  by (induction xs arbitrary: ys rule: those_fields.induct) auto

text \<open>What can be read from a store can be read, the same, from every store that extends it.\<close>

lemma st_read_extends:
  "st_read n s v = Some j \<Longrightarrow> extends s t \<Longrightarrow> st_read n t v = Some j"
proof (induction n arbitrary: v j)
  case 0
  then show ?case by (cases v) simp_all
next
  case (Suc n)
  show ?case
  proof (cases v)
    case (VRef a)
    with Suc.prems obtain ob where ob: "obj_at s a = Some ob"
      by (auto split: option.splits)
    with Suc.prems(2) have ob': "obj_at t a = Some ob" by (blast intro: extends_obj_at)
    show ?thesis
    proof (cases ob)
      case (OList vs)
      with Suc.prems(1) VRef ob obtain js where js: "those (map (st_read n s) vs) = Some js"
        by auto
      have "map (st_read n t) vs = map (st_read n s) vs"
      proof (rule map_cong [OF refl])
        fix x assume "x \<in> set vs"
        with js obtain y where "st_read n s x = Some y"
          using those_Some_all [OF js, of "st_read n s x"] by auto
        with Suc.IH [OF _ Suc.prems(2)] show "st_read n t x = st_read n s x" by simp
      qed
      then have "those (map (st_read n t) vs) = those (map (st_read n s) vs)"
        by (rule arg_cong)
      with Suc.prems(1) VRef ob ob' OList show ?thesis by simp
    next
      case (ODict kvs)
      with Suc.prems(1) VRef ob obtain fs where
        fs: "those_fields (map (\<lambda>kv. (fst kv, st_read n s (snd kv))) kvs) = Some fs"
        by auto
      have "map (\<lambda>kv. (fst kv, st_read n t (snd kv))) kvs =
            map (\<lambda>kv. (fst kv, st_read n s (snd kv))) kvs"
      proof (rule map_cong [OF refl])
        fix kv assume "kv \<in> set kvs"
        then have "(fst kv, st_read n s (snd kv)) \<in>
            set (map (\<lambda>kv. (fst kv, st_read n s (snd kv))) kvs)" by auto
        from those_fields_Some_all [OF fs this]
        obtain y where "st_read n s (snd kv) = Some y" by auto
        with Suc.IH [OF _ Suc.prems(2)]
        show "(fst kv, st_read n t (snd kv)) = (fst kv, st_read n s (snd kv))" by simp
      qed
      then have "those_fields (map (\<lambda>kv. (fst kv, st_read n t (snd kv))) kvs) =
            those_fields (map (\<lambda>kv. (fst kv, st_read n s (snd kv))) kvs)"
        by (rule arg_cong)
      with Suc.prems(1) VRef ob ob' ODict show ?thesis by simp
    qed
  qed (use Suc.prems in simp_all)
qed


text \<open>
  C9. Whatever the store and the value of \<^verbatim>\<open>self.pokemon_data\<close>: after each of the
  five extractors every object that was in the store is still there, unchanged, at its
  address (the extractor has only added objects of its own), and the document read from
  \<^verbatim>\<open>self.pokemon_data\<close> after the call is the document read from it before.
\<close>

theorem extractors_leave_document:
  assumes "st_read n s data = Some doc"
  shows "extends s (snd (st_parse_pokemon_types U data s))
       \<and> st_read n (snd (st_parse_pokemon_types U data s)) data = Some doc
       \<and> extends s (snd (st_parse_pokemon_stats data s))
       \<and> st_read n (snd (st_parse_pokemon_stats data s)) data = Some doc
       \<and> extends s (snd (st_parse_pokemon_abilities U data s))
       \<and> st_read n (snd (st_parse_pokemon_abilities U data s)) data = Some doc
       \<and> snd (st_parse_pokemon_game_version data s) = s
       \<and> extends s (snd (snd (st_parse_pokemon_moves U net k data s)))
       \<and> st_read n (snd (snd (st_parse_pokemon_moves U net k data s))) data = Some doc"
proof -
  note keep = st_read_extends [OF assms]
  show ?thesis
    by (simp add: keep extends_st_parse_pokemon_types extends_st_parse_pokemon_stats
          extends_st_parse_pokemon_abilities extends_st_parse_pokemon_moves
          st_parse_pokemon_game_version_def)
qed

theorem extractors_leave_document_witness:
  "st_read 4 (snd (st_parse_pokemon_types ucd_sample (fst (load example_doc [])) (snd (load example_doc []))))
      (fst (load example_doc [])) = Some example_doc
   \<and> st_read 4 (snd (st_parse_pokemon_stats (fst (load example_doc [])) (snd (load example_doc []))))
      (fst (load example_doc [])) = Some example_doc
   \<and> st_read 4 (snd (st_parse_pokemon_abilities ucd_sample (fst (load example_doc [])) (snd (load example_doc []))))
      (fst (load example_doc [])) = Some example_doc
   \<and> st_read 4 (snd (snd (st_parse_pokemon_moves ucd_sample example_net 0 (fst (load example_doc []))
         (snd (load example_doc []))))) (fst (load example_doc [])) = Some example_doc"
proof -
  have r: "st_read 4 (snd (load example_doc [])) (fst (load example_doc [])) = Some example_doc"
    by code_simp
  from extractors_leave_document [OF r, of ucd_sample example_net 0] show ?thesis
    by simp
qed

end
